theory Spec2Isabelle
  imports Main "HOL-Library.Multiset" "HOL-Library.Sublist"
begin

section \<open>JavaScript values and built-ins the program relies on\<close>

text \<open>
  A JavaScript string is a \<^typ>\<open>string\<close>. An attribute that may be absent
  (\<^verbatim>\<open>undefined\<close> or \<^verbatim>\<open>null\<close>) is a \<^typ>\<open>string option\<close>, with
  \<^term>\<open>None\<close> for the absent value. A string is falsy exactly when it is absent or empty.
\<close>

definition truthy :: "string option \<Rightarrow> bool" where
  "truthy v = (case v of None \<Rightarrow> False | Some s \<Rightarrow> s \<noteq> [])"

text \<open>\<^verbatim>\<open>v || d\<close> for a possibly absent string \<open>v\<close> and a string default \<open>d\<close>.\<close>

definition orElse :: "string option \<Rightarrow> string \<Rightarrow> string" where
  "orElse v d = (case v of None \<Rightarrow> d | Some s \<Rightarrow> if s = [] then d else s)"

text \<open>
  \<^verbatim>\<open>Array.prototype.sort(cmp)\<close>. ECMAScript requires the sort to be stable, so for a
  consistent comparator the result is the one a stable insertion sort produces. The
  comparator's result is read by its sign only (a \<^verbatim>\<open>NaN\<close> result counts as \<open>0\<close>
  and is passed here as \<open>0\<close>). For an inconsistent comparator (one that returns
  \<^verbatim>\<open>NaN\<close> on some pairs, for instance) the order is implementation-defined in
  ECMAScript; the model then yields the order of the insertion sort.
\<close>

fun js_insert :: "('a \<Rightarrow> 'a \<Rightarrow> int) \<Rightarrow> 'a \<Rightarrow> 'a list \<Rightarrow> 'a list" where
  "js_insert cmp x [] = [x]"
| "js_insert cmp x (y # ys) = (if cmp x y \<le> 0 then x # y # ys else y # js_insert cmp x ys)"

definition js_sort :: "('a \<Rightarrow> 'a \<Rightarrow> int) \<Rightarrow> 'a list \<Rightarrow> 'a list" where
  "js_sort cmp xs = foldr (js_insert cmp) xs []"

section \<open>Data model\<close>

text \<open>
  A business-status record \<^verbatim>\<open>{attributes: {code, technicalStatus, createdAt}}\<close>.
  \<open>createdAt\<close> holds the time value (milliseconds since the epoch) of
  \<^verbatim>\<open>new Date(attributes.createdAt)\<close>, or \<^term>\<open>None\<close> when that is not a date
  (the attribute is missing or does not parse, and the time value is \<^verbatim>\<open>NaN\<close>).
\<close>

record status =
  code :: "string option"
  technicalStatus :: "string option"
  createdAt :: "int option"

text \<open>
  \<^verbatim>\<open>new Date(x) - new Date(y)\<close> as the sort reads it: the difference of the time
  values, and \<open>0\<close> when either date is invalid (the difference is \<^verbatim>\<open>NaN\<close>).
\<close>

definition dateDifference :: "int option \<Rightarrow> int option \<Rightarrow> int" where
  "dateDifference x y =
     (case x of
        None \<Rightarrow> 0
      | Some tx \<Rightarrow> (case y of None \<Rightarrow> 0 | Some ty \<Rightarrow> tx - ty))"

text \<open>What \<open>getLatestStatus\<close> returns: \<^verbatim>\<open>{code, technicalStatus}\<close>.\<close>

record latest_status =
  latest_code :: string
  latest_technicalStatus :: string

text \<open>
  A thrown error, as far as the program reads it: \<^verbatim>\<open>error.message\<close> and
  \<^verbatim>\<open>error.response?.data?.errors\<close> (\<^term>\<open>None\<close> when any link of that chain is
  absent), a list of JSON:API error objects each with an optional \<open>detail\<close>.
\<close>

record error_item =
  detail :: "string option"

record js_error =
  message :: string
  response_errors :: "error_item list option"

text \<open>An inbound or outbound document \<^verbatim>\<open>{id, attributes: {...}}\<close>.\<close>

record document =
  doc_id :: string
  transmissionId :: "string option"
  doc_createdAt :: "string option"
  businessStatus :: "string option"

text \<open>The resource a status submission returns (\<^verbatim>\<open>response.data.data\<close>).\<close>

record status_resource =
  res_id :: "string option"
  res_technicalStatus :: "string option option"

text \<open>
  \<open>PeppolApiService\<close>: the remote service as the run observes it. Each operation either
  throws (\<^term>\<open>Inl\<close>) or returns (\<^term>\<open>Inr\<close>); a read of the same resource gives the
  same answer within the phase of the run that issues it.
  In \<^typ>\<open>status_resource\<close>, \<open>res_technicalStatus\<close> is \<^term>\<open>None\<close> when the resource
  has no \<open>attributes\<close> object.
\<close>

record peppol_api =
  fetchOutboundDocuments :: "js_error + document list"
  fetchInboundDocuments :: "js_error + document list"
  fetchDocumentXml :: "string \<Rightarrow> js_error + string"
  fetchInboundBusinessStatuses :: "string \<Rightarrow> js_error + status list"
  sendBusinessStatus :: "string \<Rightarrow> string \<Rightarrow> js_error + status_resource option"

section \<open>Configuration\<close>

definition ACCEPTED :: string where
  "ACCEPTED = ''accepted''"

definition REJECTED :: string where
  "REJECTED = ''rejected''"

definition finalStatuses :: "string list" where
  "finalStatuses = [ACCEPTED, REJECTED]"

section \<open>StatusResolver\<close>

definition sentinel :: latest_status where
  "sentinel = \<lparr>latest_code = ''-'', latest_technicalStatus = ''-''\<rparr>"

text \<open>
  The copy \<^verbatim>\<open>[...statuses]\<close> is sorted by descending \<open>createdAt\<close> and its first
  element is read. The sorted copy of a non-empty list is non-empty
  (lemma \<open>js_sort_Nil_iff\<close>), so the empty case of the inner match is never taken.
\<close>

definition getLatestStatus :: "status list \<Rightarrow> latest_status" where
  "getLatestStatus statuses =
     (if length statuses = 0 then sentinel
      else (case js_sort (\<lambda>a b. dateDifference (createdAt b) (createdAt a)) statuses of
              [] \<Rightarrow> sentinel
            | latest # _ \<Rightarrow>
                \<lparr>latest_code = orElse (code latest) ''-'',
                 latest_technicalStatus = orElse (technicalStatus latest) ''-''\<rparr>))"

definition hasStatus :: "status list \<Rightarrow> string \<Rightarrow> bool" where
  "hasStatus statuses statusCode = list_ex (\<lambda>s. code s = Some statusCode) statuses"

definition hasAnyStatus :: "status list \<Rightarrow> string list \<Rightarrow> bool" where
  "hasAnyStatus statuses statusCodes =
     list_ex (\<lambda>s. code s \<in> set (map Some statusCodes)) statuses"

definition getExistingStatusCodes :: "status list \<Rightarrow> string option list" where
  "getExistingStatusCodes statuses = map code statuses"

section \<open>BusinessStatusManager\<close>

record document_analysis =
  statuses :: "status list"
  hasFinalStatus :: bool
  existingCodes :: "string option list"
  needsFinalStatus :: bool
  isComplete :: bool

definition analyzeDocument :: "peppol_api \<Rightarrow> string \<Rightarrow> js_error + document_analysis" where
  "analyzeDocument api documentId =
     (case fetchInboundBusinessStatuses api documentId of
        Inl e \<Rightarrow> Inl e
      | Inr sts \<Rightarrow>
          (let hasFinal = hasAnyStatus sts finalStatuses;
               existing = getExistingStatusCodes sts
           in Inr \<lparr>statuses = sts,
                   hasFinalStatus = hasFinal,
                   existingCodes = existing,
                   needsFinalStatus = \<not> hasFinal,
                   isComplete = hasFinal\<rparr>))"

section \<open>The status resolver on a store of arrays\<close>

text \<open>
  \<open>Array.prototype.sort\<close> sorts the array it is called on in place. To state that
  \<open>getLatestStatus\<close> leaves its argument untouched, the arrays live in a store
  (a list of arrays, a reference being an index): \<^verbatim>\<open>[...statuses]\<close> allocates a
  new array holding the same elements, and \<open>sort\<close> overwrites the array it is given.
  \<open>hasStatus\<close> and \<open>hasAnyStatus\<close> only call \<open>some\<close>, which reads the array and
  writes nothing. Each function returns its result and the store it leaves.
\<close>

type_synonym store = "status list list"

definition spread :: "store \<Rightarrow> nat \<Rightarrow> store \<times> nat" where
  "spread h a = (h @ [h ! a], length h)"

definition sort_in_place :: "(status \<Rightarrow> status \<Rightarrow> int) \<Rightarrow> store \<Rightarrow> nat \<Rightarrow> store" where
  "sort_in_place cmp h a = h[a := js_sort cmp (h ! a)]"

definition getLatestStatus_store :: "store \<Rightarrow> nat \<Rightarrow> latest_status \<times> store" where
  "getLatestStatus_store h arr =
     (if length (h ! arr) = 0 then (sentinel, h)
      else (let (h1, copy) = spread h arr;
                h2 = sort_in_place (\<lambda>a b. dateDifference (createdAt b) (createdAt a)) h1 copy
            in (case h2 ! copy of
                  [] \<Rightarrow> (sentinel, h2)
                | latest # _ \<Rightarrow>
                    (\<lparr>latest_code = orElse (code latest) ''-'',
                      latest_technicalStatus = orElse (technicalStatus latest) ''-''\<rparr>, h2))))"

definition hasStatus_store :: "store \<Rightarrow> nat \<Rightarrow> string \<Rightarrow> bool \<times> store" where
  "hasStatus_store h arr statusCode =
     (list_ex (\<lambda>s. code s = Some statusCode) (h ! arr), h)"

definition hasAnyStatus_store :: "store \<Rightarrow> nat \<Rightarrow> string list \<Rightarrow> bool \<times> store" where
  "hasAnyStatus_store h arr statusCodes =
     (list_ex (\<lambda>s. code s \<in> set (map Some statusCodes)) (h ! arr), h)"

section \<open>Report generator: fetching and matching\<close>

text \<open>
  A \<^verbatim>\<open>Map\<close> keyed by transmission identifiers. \<^verbatim>\<open>new Map(entries)\<close> sets the
  entries in order, so a later entry replaces an earlier one with the same key.
  \<open>has\<close> and \<open>get\<close> are \<open>m k \<noteq> None\<close> and \<open>m k\<close> (\<^term>\<open>None\<close> for
  \<^verbatim>\<open>undefined\<close>).
\<close>

definition newMap :: "('k \<times> 'v) list \<Rightarrow> ('k \<rightharpoonup> 'v)" where
  "newMap entries = foldl (\<lambda>m (k, v). m(k \<mapsto> v)) Map.empty entries"

record doc_match =
  inbound :: document
  outbound :: "document option"
  m_transmissionId :: "string option"

definition buildOutboundMap :: "peppol_api \<Rightarrow> js_error + (string option \<rightharpoonup> document)" where
  "buildOutboundMap api =
     (case fetchOutboundDocuments api of
        Inl e \<Rightarrow> Inl e
      | Inr outboundDocs \<Rightarrow>
          Inr (newMap (map (\<lambda>doc. (transmissionId doc, doc))
                 (filter (\<lambda>doc. truthy (transmissionId doc)) outboundDocs))))"

definition findMatches :: "document list \<Rightarrow> (string option \<rightharpoonup> document) \<Rightarrow> doc_match list" where
  "findMatches inboundDocs outboundMap =
     map (\<lambda>inDoc. \<lparr>inbound = inDoc,
                   outbound = outboundMap (transmissionId inDoc),
                   m_transmissionId = transmissionId inDoc\<rparr>)
       (filter (\<lambda>doc. outboundMap (transmissionId doc) \<noteq> None) inboundDocs)"

definition fetchAndMatchDocuments :: "peppol_api \<Rightarrow> js_error + doc_match list" where
  "fetchAndMatchDocuments api =
     (case fetchInboundDocuments api of
        Inl e \<Rightarrow> Inl e
      | Inr inboundDocs \<Rightarrow>
          if length inboundDocs = 0 then Inr []
          else (case buildOutboundMap api of
                  Inl e \<Rightarrow> Inl e
                | Inr outboundMap \<Rightarrow>
                    (let matches = findMatches inboundDocs outboundMap
                     in if length matches = 0 then Inr [] else Inr matches)))"

section \<open>Host environment: dates and collation\<close>

text \<open>
  A \<^verbatim>\<open>Date\<close> object is its time value in milliseconds since the epoch, or
  \<^term>\<open>None\<close> for an invalid date (time value \<^verbatim>\<open>NaN\<close>).

  What the JavaScript host contributes is a parameter of the model:
  \<^item> \<open>dateParse s\<close>: the time value of \<^verbatim>\<open>new Date(s)\<close> for a string \<open>s\<close>
    (only the ISO formats are fixed by ECMAScript);
  \<^item> \<open>getFullYear\<close>, \<open>getMonth\<close>, \<open>getDate\<close>: the calendar fields of a valid time
    value in the host's local time zone;
  \<^item> \<open>newLocalDate y m d\<close>: the time value of \<^verbatim>\<open>new Date(y, m, d)\<close>, local midnight
    of that day;
  \<^item> \<open>localeCompare a b\<close>: the sign of \<^verbatim>\<open>a.localeCompare(b)\<close> in the host's
    default locale.
\<close>

type_synonym js_date = "int option"

record js_host =
  dateParse :: "string \<Rightarrow> int option"
  getFullYear :: "int \<Rightarrow> int"
  getMonth :: "int \<Rightarrow> int"
  getDate :: "int \<Rightarrow> int"
  newLocalDate :: "int \<Rightarrow> int \<Rightarrow> int \<Rightarrow> int option"
  localeCompare :: "string \<Rightarrow> string \<Rightarrow> int"

text \<open>
  \<^verbatim>\<open>new Date(v)\<close> for an attribute \<open>v\<close>. \<^term>\<open>None\<close> is an attribute that is
  not there: \<^verbatim>\<open>new Date(undefined)\<close> is invalid. (A JSON \<^verbatim>\<open>null\<close> would give
  the epoch instead, a date before the cutoff like the invalid one.)
\<close>

definition newDate :: "js_host \<Rightarrow> string option \<Rightarrow> js_date" where
  "newDate h v = (case v of None \<Rightarrow> None | Some s \<Rightarrow> dateParse h s)"

text \<open>
  \<^verbatim>\<open>new Date(d.getFullYear(), d.getMonth(), d.getDate())\<close>: on an invalid date the
  getters return \<^verbatim>\<open>NaN\<close> and the result is invalid.
\<close>

definition dateOnly :: "js_host \<Rightarrow> js_date \<Rightarrow> js_date" where
  "dateOnly h d =
     (case d of
        None \<Rightarrow> None
      | Some t \<Rightarrow> newLocalDate h (getFullYear h t) (getMonth h t) (getDate h t))"

text \<open>\<^verbatim>\<open>a >= b\<close> on dates compares time values; it is false when either is \<^verbatim>\<open>NaN\<close>.\<close>

definition date_ge :: "js_date \<Rightarrow> js_date \<Rightarrow> bool" where
  "date_ge a b = (case a of None \<Rightarrow> False | Some x \<Rightarrow> (case b of None \<Rightarrow> False | Some y \<Rightarrow> x \<ge> y))"

section \<open>XmlParser\<close>

text \<open>
  The regular expression \<^verbatim>\<open><cbc:TAG>([^<]+)</cbc:TAG>\<close> tried at the start of \<open>s\<close>:
  the opening tag, then the longest run of characters other than \<open><\<close>, which must be
  non-empty and followed by the closing tag (giving characters back cannot help, since
  the closing tag starts with \<open><\<close>). The tag names used contain no regular-expression
  operator.
\<close>

definition matchAt :: "string \<Rightarrow> string \<Rightarrow> string \<Rightarrow> string option" where
  "matchAt openTag closeTag s =
     (if prefix openTag s
      then (let rest = drop (length openTag) s;
                g = takeWhile (\<lambda>c. c \<noteq> CHR ''<'') rest;
                after = dropWhile (\<lambda>c. c \<noteq> CHR ''<'') rest
            in if g \<noteq> [] \<and> prefix closeTag after then Some g else None)
      else None)"

text \<open>\<^verbatim>\<open>xml.match(regex)\<close>: the leftmost position where the expression matches.\<close>

fun firstMatch :: "(string \<Rightarrow> string option) \<Rightarrow> string \<Rightarrow> string option" where
  "firstMatch m [] = m []"
| "firstMatch m (c # cs) = (case m (c # cs) of Some g \<Rightarrow> Some g | None \<Rightarrow> firstMatch m cs)"

definition extractField :: "string \<Rightarrow> string \<Rightarrow> string option" where
  "extractField xml tagName =
     firstMatch (matchAt (''<cbc:'' @ tagName @ ''>'') (''</cbc:'' @ tagName @ ''>'')) xml"

record invoice_details =
  invoiceNumber :: string
  description :: string
  issueDate :: "js_date option"

definition parseInvoiceDetails :: "js_host \<Rightarrow> string \<Rightarrow> invoice_details" where
  "parseInvoiceDetails h xml =
     (let issue = extractField xml ''IssueDate''
      in \<lparr>invoiceNumber = orElse (extractField xml ''ID'') ''Niet gevonden'',
          description = orElse (extractField xml ''Note'') ''-'',
          issueDate = (if truthy issue then Some (newDate h issue) else None)\<rparr>)"

section \<open>Report generator: date partition\<close>

definition fetchXmlDetailsSafe :: "js_host \<Rightarrow> peppol_api \<Rightarrow> string \<Rightarrow> invoice_details" where
  "fetchXmlDetailsSafe h api docId =
     (case fetchDocumentXml api docId of
        Inr xml \<Rightarrow> parseInvoiceDetails h xml
      | Inl e \<Rightarrow> \<lparr>invoiceNumber = ''Error'', description = ''Error'', issueDate = None\<rparr>)"

text \<open>
  \<^verbatim>\<open>xmlDetails.issueDate || new Date(match.inbound.attributes.createdAt)\<close>: a
  \<^verbatim>\<open>Date\<close> object is truthy even when invalid, so the fallback is taken only for
  \<^verbatim>\<open>null\<close>.
\<close>

definition invoiceDateOf :: "js_host \<Rightarrow> peppol_api \<Rightarrow> doc_match \<Rightarrow> js_date" where
  "invoiceDateOf h api m =
     (let xmlDetails = fetchXmlDetailsSafe h api (doc_id (inbound m))
      in (case issueDate xmlDetails of
            Some d \<Rightarrow> d
          | None \<Rightarrow> newDate h (doc_createdAt (inbound m))))"

record date_split =
  nov28AndLater :: "doc_match list"
  beforeNov28 :: "doc_match list"

text \<open>One iteration of the loop of \<open>splitByDate\<close>.\<close>

definition splitStep :: "js_host \<Rightarrow> peppol_api \<Rightarrow> js_date \<Rightarrow> date_split \<Rightarrow> doc_match \<Rightarrow> date_split" where
  "splitStep h api cutoffDate acc m =
     (let invoiceDate = invoiceDateOf h api m;
          invoiceDateOnly = dateOnly h invoiceDate;
          cutoffDateOnly = dateOnly h cutoffDate
      in if date_ge invoiceDateOnly cutoffDateOnly
         then acc\<lparr>nov28AndLater := nov28AndLater acc @ [m]\<rparr>
         else acc\<lparr>beforeNov28 := beforeNov28 acc @ [m]\<rparr>)"

definition splitByDate :: "js_host \<Rightarrow> peppol_api \<Rightarrow> doc_match list \<Rightarrow> js_date \<Rightarrow> date_split" where
  "splitByDate h api matches cutoffDate =
     foldl (splitStep h api cutoffDate) \<lparr>nov28AndLater = [], beforeNov28 = []\<rparr> matches"

text \<open>
  \<^verbatim>\<open>new Date('2025-11-28T00:00:00Z')\<close>: the format is fixed by ECMAScript, the time
  value is 20420 days after the epoch.
\<close>

definition cutoffTime :: int where
  "cutoffTime = 1764288000000"

definition cutoffDate :: js_date where
  "cutoffDate = Some cutoffTime"

section \<open>BusinessStatusManager: submitting a status\<close>

text \<open>
  What \<open>sendStatus\<close> returns: \<^verbatim>\<open>{success, statusCode, statusId, technicalStatus}\<close>
  or \<^verbatim>\<open>{success, statusCode, error}\<close>; a field the object does not have is
  \<^term>\<open>None\<close>.
\<close>

record send_result =
  success :: bool
  sent_statusCode :: string
  statusId :: "string option"
  sent_technicalStatus :: "string option"
  error :: "string option"

text \<open>
  The \<^verbatim>\<open>TypeError\<close> that reading property \<open>p\<close> of \<^verbatim>\<open>undefined\<close> throws (the
  message is the one Node.js gives); it carries no \<open>response\<close>.
\<close>

definition typeError :: "string \<Rightarrow> js_error" where
  "typeError p =
     \<lparr>message = ''Cannot read properties of undefined (reading '' @ [CHR 0x27] @ p
                  @ [CHR 0x27] @ '')'',
      response_errors = None\<rparr>"

text \<open>\<^verbatim>\<open>error.response?.data?.errors?.[0]?.detail || error.message\<close>.\<close>

definition errorMessage :: "js_error \<Rightarrow> string" where
  "errorMessage e =
     orElse (case response_errors e of
               None \<Rightarrow> None
             | Some [] \<Rightarrow> None
             | Some (first # _) \<Rightarrow> detail first)
       (message e)"

definition failed :: "string \<Rightarrow> js_error \<Rightarrow> send_result" where
  "failed statusCode e =
     \<lparr>success = False, sent_statusCode = statusCode, statusId = None, sent_technicalStatus = None,
      error = Some (errorMessage e)\<rparr>"

text \<open>
  The whole body is inside \<^verbatim>\<open>try\<close>: a rejected request, a missing response resource
  (reading \<open>response.id\<close>) and a resource without attributes (reading
  \<open>response.attributes.technicalStatus\<close>) all end in the \<^verbatim>\<open>catch\<close> block.
\<close>

definition sendStatus :: "peppol_api \<Rightarrow> string \<Rightarrow> string \<Rightarrow> send_result" where
  "sendStatus api documentId statusCode =
     (case sendBusinessStatus api documentId statusCode of
        Inl e \<Rightarrow> failed statusCode e
      | Inr None \<Rightarrow> failed statusCode (typeError ''id'')
      | Inr (Some response) \<Rightarrow>
          (case res_technicalStatus response of
             None \<Rightarrow> failed statusCode (typeError ''technicalStatus'')
           | Some ts \<Rightarrow>
               \<lparr>success = True, sent_statusCode = statusCode, statusId = res_id response,
                sent_technicalStatus = ts, error = None\<rparr>))"

text \<open>
  \<^verbatim>\<open>randomChoice(options)\<close> is \<^verbatim>\<open>options[Math.floor(Math.random() * options.length)]\<close>;
  the number \<open>r\<close> stands for the drawn index, which lies below the length.
\<close>

definition randomChoice :: "'a list \<Rightarrow> nat \<Rightarrow> 'a" where
  "randomChoice options r = options ! (r mod length options)"

definition getRandomFinalStatus :: "nat \<Rightarrow> string" where
  "getRandomFinalStatus r = randomChoice [ACCEPTED, REJECTED] r"

section \<open>Report generator: analysis and submission\<close>

text \<open>
  An entry of the analysis:
  \<^verbatim>\<open>{documentId, transmissionId, match, ...analysis, outboundBusinessState}\<close>.
\<close>

record analysis_item = document_analysis +
  documentId :: string
  a_transmissionId :: "string option"
  a_match :: doc_match
  outboundBusinessState :: "string option"

text \<open>
  The loop of \<open>analyzeAllDocuments\<close>; it stops at the first status fetch that throws.
  Reading \<open>match.outbound.attributes\<close> throws when \<open>outbound\<close> is \<^verbatim>\<open>undefined\<close>.
\<close>

fun analyzeAllDocuments :: "peppol_api \<Rightarrow> doc_match list \<Rightarrow> js_error + analysis_item list" where
  "analyzeAllDocuments api [] = Inr []"
| "analyzeAllDocuments api (m # ms) =
     (case analyzeDocument api (doc_id (inbound m)) of
        Inl e \<Rightarrow> Inl e
      | Inr analysis \<Rightarrow>
          (case outbound m of
             None \<Rightarrow> Inl (typeError ''attributes'')
           | Some ob \<Rightarrow>
               (case analyzeAllDocuments api ms of
                  Inl e \<Rightarrow> Inl e
                | Inr results \<Rightarrow>
                    Inr (document_analysis.extend analysis
                           \<lparr>documentId = doc_id (inbound m),
                            a_transmissionId = m_transmissionId m,
                            a_match = m,
                            outboundBusinessState =
                              (if truthy (businessStatus ob) then businessStatus ob else None)\<rparr>
                         # results))))"

text \<open>
  The state of a run: \<open>processResults\<close> (document id to phase to result), the status
  submissions attempted so far, in order (one entry per call of \<open>sendBusinessStatus\<close>),
  and the number of random draws taken.
\<close>

record report_state =
  processResults :: "string \<rightharpoonup> (string \<rightharpoonup> send_result)"
  submissions :: "(string \<times> string) list"
  draws :: nat

definition initial_state :: report_state where
  "initial_state = \<lparr>processResults = Map.empty, submissions = [], draws = 0\<rparr>"

definition storeResult :: "string \<Rightarrow> string \<Rightarrow> send_result \<Rightarrow> report_state \<Rightarrow> report_state" where
  "storeResult docId phase result st =
     (let entry = (case processResults st docId of None \<Rightarrow> Map.empty | Some e \<Rightarrow> e)
      in st\<lparr>processResults := (processResults st)(docId \<mapsto> entry(phase \<mapsto> result))\<rparr>)"

text \<open>
  The loop of \<open>sendStatuses\<close>; \<open>getStatusCode\<close> receives the number of the draw.
  It returns the count of successful submissions and the new state.
\<close>

fun sendStatuses ::
  "peppol_api \<Rightarrow> analysis_item list \<Rightarrow> string \<Rightarrow> (nat \<Rightarrow> string) \<Rightarrow> nat \<Rightarrow> report_state
     \<Rightarrow> nat \<times> report_state" where
  "sendStatuses api [] phase getStatusCode successCount st = (successCount, st)"
| "sendStatuses api (doc # documents) phase getStatusCode successCount st =
     (let statusCode = getStatusCode (draws st);
          result = sendStatus api (documentId doc) statusCode;
          st1 = st\<lparr>submissions := submissions st @ [(documentId doc, statusCode)],
                   draws := draws st + 1\<rparr>;
          st2 = storeResult (documentId doc) phase result st1
      in sendStatuses api documents phase getStatusCode
           (if success result then successCount + 1 else successCount) st2)"

definition sendFinalStatuses ::
  "peppol_api \<Rightarrow> (nat \<Rightarrow> nat) \<Rightarrow> analysis_item list \<Rightarrow> report_state \<Rightarrow> nat \<times> report_state" where
  "sendFinalStatuses api rnd documents st =
     sendStatuses api documents ''final'' (\<lambda>i. getRandomFinalStatus (rnd i)) 0 st"

text \<open>
  Step 2 of \<open>generateReport\<close> for one partition: the analysis entries whose document is
  in the partition and which need a final status are submitted. The wait that follows
  changes nothing but the clock.
\<close>

definition sendForPartition ::
  "peppol_api \<Rightarrow> (nat \<Rightarrow> nat) \<Rightarrow> analysis_item list \<Rightarrow> doc_match list \<Rightarrow> report_state
     \<Rightarrow> report_state" where
  "sendForPartition api rnd analysis part st =
     (if length part > 0
      then (let partAnalysis =
                  filter (\<lambda>a. list_ex (\<lambda>m. doc_id (inbound m) = documentId a) part) analysis;
                needsFinal = filter needsFinalStatus partAnalysis
            in if length needsFinal > 0
               then snd (sendFinalStatuses api rnd needsFinal st)
               else st)
      else st)"

text \<open>
  \<open>generateReport\<close> through its last status submission: the error thrown, if any, and
  the state reached. \<open>rnd i\<close> is the \<open>i\<close>-th random draw. The steps that follow
  (printing and saving the report) only read from the service.
\<close>

definition generateReport ::
  "js_host \<Rightarrow> peppol_api \<Rightarrow> (nat \<Rightarrow> nat) \<Rightarrow> js_error option \<times> report_state" where
  "generateReport h api rnd =
     (case fetchAndMatchDocuments api of
        Inl e \<Rightarrow> (Some e, initial_state)
      | Inr matches \<Rightarrow>
          if length matches = 0 then (None, initial_state)
          else (case analyzeAllDocuments api matches of
                  Inl e \<Rightarrow> (Some e, initial_state)
                | Inr analysis \<Rightarrow>
                    (let split = splitByDate h api matches cutoffDate;
                         st1 = sendForPartition api rnd analysis (nov28AndLater split)
                                 initial_state;
                         st2 = sendForPartition api rnd analysis (beforeNov28 split) st1
                     in (None, st2))))"

section \<open>Numbers and parseInt\<close>

text \<open>
  The Number values that arise are integers or \<^verbatim>\<open>NaN\<close>. An integer-valued Number
  is the \<^typ>\<open>int\<close> it denotes, \<^verbatim>\<open>Infinity\<close> is \<open>2 ^ 1024\<close> (above every finite
  double), and \<^verbatim>\<open>NaN\<close> is \<^term>\<open>None\<close>. \<open>toNumber\<close> rounds a mathematical
  integer to the nearest double, ties to even, as ECMAScript does when it converts.
\<close>

fun bitlen :: "int \<Rightarrow> nat" where
  "bitlen n = (if n \<le> 0 then 0 else Suc (bitlen (n div 2)))"

declare bitlen.simps [simp del]

text \<open>The magnitude \<open>m \<ge> 0\<close> rounded to a double.\<close>

definition roundMagnitude :: "int \<Rightarrow> int" where
  "roundMagnitude m =
     (if m < 2 ^ 53 then m
      else (let e = bitlen m - 53;
                q = m div 2 ^ e;
                r = m mod 2 ^ e;
                half = 2 ^ (e - 1);
                q' = (if r > half \<or> (r = half \<and> odd q) then q + 1 else q);
                v = q' * 2 ^ e
            in if v \<ge> 2 ^ 1024 then 2 ^ 1024 else v))"

definition toNumber :: "int \<Rightarrow> int" where
  "toNumber i = (if i < 0 then - roundMagnitude (- i) else roundMagnitude i)"

definition isDigit :: "char \<Rightarrow> bool" where
  "isDigit c = (48 \<le> (of_char c :: nat) \<and> (of_char c :: nat) \<le> 57)"

definition digitValue :: "char \<Rightarrow> nat" where
  "digitValue c = of_char c - 48"

text \<open>
  The white space \<open>parseInt\<close> skips, among the characters a \<^typ>\<open>char\<close> can hold:
  TAB, LF, VT, FF, CR, SP and NBSP.
\<close>

definition isWhiteSpace :: "char \<Rightarrow> bool" where
  "isWhiteSpace c = ((of_char c :: nat) \<in> {9, 10, 11, 12, 13, 32, 160})"

definition digitsInt :: "string \<Rightarrow> int" where
  "digitsInt ds = foldl (\<lambda>acc c. acc * 10 + int (digitValue c)) 0 ds"

text \<open>
  \<^verbatim>\<open>parseInt(s, 10)\<close>: leading white space is skipped, one sign is read, then the
  longest run of decimal digits; without a digit the result is \<^verbatim>\<open>NaN\<close>. The value
  of the digits is rounded to a double (ECMAScript lets an implementation approximate
  digits after the twentieth; the exact value is rounded here).
\<close>

definition parseInt :: "string \<Rightarrow> int option" where
  "parseInt s =
     (let s1 = dropWhile isWhiteSpace s;
          sign = (case s1 of c # _ \<Rightarrow> (if c = CHR ''-'' then - 1 else 1) | [] \<Rightarrow> (1::int));
          s2 = (case s1 of c # rest \<Rightarrow> (if c = CHR ''-'' \<or> c = CHR ''+'' then rest else s1)
                | [] \<Rightarrow> s1);
          ds = takeWhile isDigit s2
      in if ds = [] then None else Some (toNumber (sign * digitsInt ds)))"

section \<open>Report generator: sorting by invoice number\<close>

text \<open>
  The comparator of \<open>sortMatchesByInvoiceNumber\<close>:
  \<^verbatim>\<open>!isNaN(numA) && !isNaN(numB) ? numA - numB : a.invoiceNumber.localeCompare(b.invoiceNumber)\<close>.
  Only the sign of its result is used by the sort; the difference of two Numbers has the
  sign of the difference of the integers they denote (\<^verbatim>\<open>Infinity - Infinity\<close> is
  \<^verbatim>\<open>NaN\<close>, which the sort reads as \<open>0\<close>).
\<close>

definition compareInvoiceNumbers :: "js_host \<Rightarrow> string \<Rightarrow> string \<Rightarrow> int" where
  "compareInvoiceNumbers h a b =
     (let numA = parseInt a;
          numB = parseInt b
      in (case numA of
            None \<Rightarrow> localeCompare h a b
          | Some x \<Rightarrow> (case numB of None \<Rightarrow> localeCompare h a b | Some y \<Rightarrow> x - y)))"

definition sortMatchesByInvoiceNumber ::
  "js_host \<Rightarrow> peppol_api \<Rightarrow> doc_match list \<Rightarrow> doc_match list" where
  "sortMatchesByInvoiceNumber h api matches =
     (let matchesWithNumbers =
            map (\<lambda>m. (m, invoiceNumber (fetchXmlDetailsSafe h api (doc_id (inbound m)))))
              matches
      in map fst (js_sort (\<lambda>a b. compareInvoiceNumbers h (snd a) (snd b)) matchesWithNumbers))"

text \<open>
  The invoice number a match is sorted by, and the order the comparator puts two matches
  in (\<open>m\<close> is not after \<open>m'\<close>).
\<close>

definition invoiceNumberOf :: "js_host \<Rightarrow> peppol_api \<Rightarrow> doc_match \<Rightarrow> string" where
  "invoiceNumberOf h api m = invoiceNumber (fetchXmlDetailsSafe h api (doc_id (inbound m)))"

definition inInvoiceOrder :: "js_host \<Rightarrow> peppol_api \<Rightarrow> doc_match \<Rightarrow> doc_match \<Rightarrow> bool" where
  "inInvoiceOrder h api m m' =
     (compareInvoiceNumbers h (invoiceNumberOf h api m) (invoiceNumberOf h api m') \<le> 0)"

section \<open>Example data\<close>

definition st_received :: status where
  "st_received = \<lparr>code = Some ''received'', technicalStatus = Some ''delivered'', createdAt = Some 1000\<rparr>"

definition st_accepted :: status where
  "st_accepted = \<lparr>code = Some ''accepted'', technicalStatus = Some ''sent'', createdAt = Some 3000\<rparr>"

definition st_pending :: status where
  "st_pending = \<lparr>code = Some ''accepted'', technicalStatus = None, createdAt = Some 2000\<rparr>"

definition st_undated :: status where
  "st_undated = \<lparr>code = Some ''rejected'', technicalStatus = Some ''sent'', createdAt = None\<rparr>"

definition st_latest :: status where
  "st_latest = \<lparr>code = Some ''acknowledged'', technicalStatus = Some ''sent'', createdAt = Some 5000\<rparr>"

definition demo_error :: js_error where
  "demo_error = \<lparr>message = ''Request failed with status code 404'', response_errors = None\<rparr>"

definition in1 :: document where
  "in1 = \<lparr>doc_id = ''in-1'', transmissionId = Some ''T1'',
          doc_createdAt = Some ''2025-11-20T10:00:00Z'', businessStatus = None\<rparr>"

definition in2 :: document where
  "in2 = \<lparr>doc_id = ''in-2'', transmissionId = Some ''T2'',
          doc_createdAt = Some ''2025-11-28T09:30:00Z'', businessStatus = None\<rparr>"

definition in3 :: document where
  "in3 = \<lparr>doc_id = ''in-3'', transmissionId = None,
          doc_createdAt = Some ''2025-11-29T08:00:00Z'', businessStatus = None\<rparr>"

definition out1 :: document where
  "out1 = \<lparr>doc_id = ''out-1'', transmissionId = Some ''T1'',
           doc_createdAt = Some ''2025-11-20T09:00:00Z'', businessStatus = None\<rparr>"

definition out2a :: document where
  "out2a = \<lparr>doc_id = ''out-2a'', transmissionId = Some ''T2'',
            doc_createdAt = Some ''2025-11-28T09:00:00Z'', businessStatus = None\<rparr>"

definition out2b :: document where
  "out2b = \<lparr>doc_id = ''out-2b'', transmissionId = Some ''T2'',
            doc_createdAt = Some ''2025-11-28T09:10:00Z'', businessStatus = Some ''accepted''\<rparr>"

definition out3 :: document where
  "out3 = \<lparr>doc_id = ''out-3'', transmissionId = Some [],
           doc_createdAt = Some ''2025-11-28T09:20:00Z'', businessStatus = None\<rparr>"

definition demo_xml1 :: string where
  "demo_xml1 = ''<Invoice><cbc:ID>1001</cbc:ID><cbc:IssueDate>2025-11-20</cbc:IssueDate><cbc:Note>Consultancy</cbc:Note></Invoice>''"

definition demo_forbidden :: js_error where
  "demo_forbidden =
     \<lparr>message = ''Request failed with status code 403'',
      response_errors = Some [\<lparr>detail = Some ''Document already has a final status''\<rparr>]\<rparr>"

definition demo_api :: peppol_api where
  "demo_api =
     \<lparr>fetchOutboundDocuments = Inr [out1, out2a, out3, out2b],
      fetchInboundDocuments = Inr [in1, in2, in3],
      fetchDocumentXml = (\<lambda>d. if d = ''in-1'' then Inr demo_xml1 else Inl demo_error),
      fetchInboundBusinessStatuses =
        (\<lambda>d. if d = ''in-2'' then Inr [st_received, st_accepted] else Inr [st_received]),
      sendBusinessStatus =
        (\<lambda>d c. if c = ''accepted''
               then Inr (Some \<lparr>res_id = Some ''bs-9'', res_technicalStatus = Some (Some ''queued'')\<rparr>)
               else Inl demo_forbidden)\<rparr>"

subsection \<open>An example host in the UTC time zone\<close>

text \<open>
  Days since the epoch of a civil date and back (proleptic Gregorian calendar), with
  months counted from 1.
\<close>

definition days_from_civil :: "int \<Rightarrow> int \<Rightarrow> int \<Rightarrow> int" where
  "days_from_civil y m d =
     (let y' = (if m \<le> 2 then y - 1 else y);
          era = y' div 400;
          yoe = y' - era * 400;
          doy = (153 * (if m > 2 then m - 3 else m + 9) + 2) div 5 + d - 1;
          doe = yoe * 365 + yoe div 4 - yoe div 100 + doy
      in era * 146097 + doe - 719468)"

definition civil_from_days :: "int \<Rightarrow> int \<times> int \<times> int" where
  "civil_from_days z =
     (let z' = z + 719468;
          era = z' div 146097;
          doe = z' - era * 146097;
          yoe = (doe - doe div 1460 + doe div 36524 - doe div 146096) div 365;
          doy = doe - (365 * yoe + yoe div 4 - yoe div 100);
          mp = (5 * doy + 2) div 153;
          d = doy - (153 * mp + 2) div 5 + 1;
          m = (if mp < 10 then mp + 3 else mp - 9)
      in (if m \<le> 2 then yoe + era * 400 + 1 else yoe + era * 400, m, d))"

fun digitsValue :: "string \<Rightarrow> nat \<Rightarrow> nat option" where
  "digitsValue [] acc = Some acc"
| "digitsValue (c # cs) acc =
     (if isDigit c then digitsValue cs (acc * 10 + digitValue c) else None)"

definition daysInMonth :: "int \<Rightarrow> int \<Rightarrow> int" where
  "daysInMonth y m =
     (if m = 2 then (if y mod 4 = 0 \<and> (y mod 100 \<noteq> 0 \<or> y mod 400 = 0) then 29 else 28)
      else if m = 4 \<or> m = 6 \<or> m = 9 \<or> m = 11 then 30 else 31)"

text \<open>The date part \<^verbatim>\<open>YYYY-MM-DD\<close>, as days since the epoch.\<close>

definition isoDay :: "string \<Rightarrow> int option" where
  "isoDay s =
     (if length s = 10 \<and> s ! 4 = CHR ''-'' \<and> s ! 7 = CHR ''-''
      then (case digitsValue (take 4 s) 0 of
              None \<Rightarrow> None
            | Some y \<Rightarrow>
                (case digitsValue (take 2 (drop 5 s)) 0 of
                   None \<Rightarrow> None
                 | Some m \<Rightarrow>
                     (case digitsValue (drop 8 s) 0 of
                        None \<Rightarrow> None
                      | Some d \<Rightarrow>
                          if 1 \<le> m \<and> m \<le> 12 \<and> 1 \<le> d \<and> int d \<le> daysInMonth (int y) (int m)
                          then Some (days_from_civil (int y) (int m) (int d))
                          else None)))
      else None)"

text \<open>The time part \<^verbatim>\<open>THH:MM:SSZ\<close>, as milliseconds.\<close>

definition isoTime :: "string \<Rightarrow> int option" where
  "isoTime s =
     (if length s = 10 \<and> s ! 0 = CHR ''T'' \<and> s ! 3 = CHR '':'' \<and> s ! 6 = CHR '':''
         \<and> s ! 9 = CHR ''Z''
      then (case digitsValue (take 2 (drop 1 s)) 0 of
              None \<Rightarrow> None
            | Some hh \<Rightarrow>
                (case digitsValue (take 2 (drop 4 s)) 0 of
                   None \<Rightarrow> None
                 | Some mm \<Rightarrow>
                     (case digitsValue (take 2 (drop 7 s)) 0 of
                        None \<Rightarrow> None
                      | Some ss \<Rightarrow>
                          if hh < 24 \<and> mm < 60 \<and> ss < 60
                          then Some (int ((hh * 60 + mm) * 60 + ss) * 1000)
                          else None)))
      else None)"

text \<open>
  The two ISO shapes \<^verbatim>\<open>YYYY-MM-DD\<close> and \<^verbatim>\<open>YYYY-MM-DDTHH:MM:SSZ\<close>, both read as
  UTC; every other string is taken as not a date.
\<close>

definition utc_dateParse :: "string \<Rightarrow> int option" where
  "utc_dateParse s =
     (if length s = 10 then map_option (\<lambda>d. d * 86400000) (isoDay s)
      else if length s = 20
      then (case isoDay (take 10 s) of
              None \<Rightarrow> None
            | Some d \<Rightarrow> map_option (\<lambda>t. d * 86400000 + t) (isoTime (drop 10 s)))
      else None)"

text \<open>
  \<^verbatim>\<open>new Date(y, m, d)\<close> in UTC, for a month \<open>m\<close> in \<open>0..11\<close> and a day of that
  month; a year in \<open>0..99\<close> stands for \<open>1900 + y\<close>.
\<close>

definition utc_newLocalDate :: "int \<Rightarrow> int \<Rightarrow> int \<Rightarrow> int option" where
  "utc_newLocalDate y m d =
     (let y' = (if 0 \<le> y \<and> y \<le> 99 then 1900 + y else y)
      in Some (days_from_civil y' (m + 1) d * 86400000))"

text \<open>Strings compared as sequences of character codes.\<close>

fun codeUnitCompare :: "string \<Rightarrow> string \<Rightarrow> int" where
  "codeUnitCompare [] [] = 0"
| "codeUnitCompare [] (b # bs) = - 1"
| "codeUnitCompare (a # as) [] = 1"
| "codeUnitCompare (a # as) (b # bs) =
     (if (of_char a :: nat) < of_char b then - 1
      else if (of_char b :: nat) < of_char a then 1
      else codeUnitCompare as bs)"

definition utc_host :: js_host where
  "utc_host =
     \<lparr>dateParse = utc_dateParse,
      getFullYear = (\<lambda>t. fst (civil_from_days (t div 86400000))),
      getMonth = (\<lambda>t. fst (snd (civil_from_days (t div 86400000))) - 1),
      getDate = (\<lambda>t. snd (snd (civil_from_days (t div 86400000)))),
      newLocalDate = utc_newLocalDate,
      localeCompare = codeUnitCompare\<rparr>"

section \<open>Properties of the sort\<close>

lemma js_insert_Nil_iff: "js_insert cmp x ys \<noteq> []"
  by (cases ys) auto

lemma js_sort_Cons: "js_sort cmp (x # xs) = js_insert cmp x (js_sort cmp xs)"
  by (simp add: js_sort_def)

lemma js_sort_Nil: "js_sort cmp [] = []"
  by (simp add: js_sort_def)

lemma js_sort_Nil_iff: "js_sort cmp xs = [] \<longleftrightarrow> xs = []"
  by (cases xs) (simp_all add: js_sort_Nil js_sort_Cons js_insert_Nil_iff)

lemma mset_js_insert: "mset (js_insert cmp x ys) = add_mset x (mset ys)"
  by (induction ys) auto

lemma mset_js_sort: "mset (js_sort cmp xs) = mset xs"
  by (induction xs) (simp_all add: js_sort_Nil js_sort_Cons mset_js_insert)

lemma set_js_sort: "set (js_sort cmp xs) = set xs"
  using mset_js_sort [of cmp xs] by (metis set_mset_mset)

section \<open>Properties of the status resolver and manager\<close>

text \<open>
  Claim C4: for every status list fetched for a document, \<open>analyzeDocument\<close> returns
  \<open>needsFinalStatus = true\<close> exactly when no record of the list has code
  \<open>accepted\<close> or \<open>rejected\<close>, and \<open>isComplete\<close> is the negation of
  \<open>needsFinalStatus\<close>.
\<close>

theorem analyzeDocument_needsFinalStatus:
  assumes "fetchInboundBusinessStatuses api docId = Inr sts"
  shows "\<exists>a. analyzeDocument api docId = Inr a
           \<and> statuses a = sts
           \<and> needsFinalStatus a
               = (\<not> (\<exists>s \<in> set sts. code s = Some ''accepted'' \<or> code s = Some ''rejected''))
           \<and> isComplete a = (\<not> needsFinalStatus a)"
  using assms
  by (auto simp: analyzeDocument_def hasAnyStatus_def finalStatuses_def ACCEPTED_def
      REJECTED_def list_ex_iff Let_def)

theorem analyzeDocument_needsFinalStatus_witness:
  "\<exists>a. analyzeDocument
         \<lparr>fetchOutboundDocuments = Inr [], fetchInboundDocuments = Inr [],
          fetchDocumentXml = (\<lambda>d. Inl demo_error),
          fetchInboundBusinessStatuses = (\<lambda>d. Inr [st_received]),
          sendBusinessStatus = (\<lambda>d c. Inl demo_error)\<rparr> ''in-1'' = Inr a
       \<and> statuses a = [st_received] \<and> needsFinalStatus a \<and> \<not> isComplete a"
  using analyzeDocument_needsFinalStatus
    [of "\<lparr>fetchOutboundDocuments = Inr [], fetchInboundDocuments = Inr [],
          fetchDocumentXml = (\<lambda>d. Inl demo_error),
          fetchInboundBusinessStatuses = (\<lambda>d. Inr [st_received]),
          sendBusinessStatus = (\<lambda>d c. Inl demo_error)\<rparr>" "''in-1''" "[st_received]"]
  by (auto simp: st_received_def)

lemma dateDifference_valid: "dateDifference (Some x) (Some y) = x - y"
  by (simp add: dateDifference_def)

lemma getLatestStatus_of_head:
  assumes "js_sort (\<lambda>a b. dateDifference (createdAt b) (createdAt a)) xs = r # rest"
  shows "getLatestStatus xs =
           \<lparr>latest_code = orElse (code r) ''-'',
            latest_technicalStatus = orElse (technicalStatus r) ''-''\<rparr>"
proof -
  from assms have "xs \<noteq> []" by (auto simp: js_sort_Nil)
  with assms show ?thesis by (simp add: getLatestStatus_def)
qed

lemma getLatestStatus_member:
  assumes "xs \<noteq> []"
  shows "\<exists>r \<in> set xs. getLatestStatus xs =
           \<lparr>latest_code = orElse (code r) ''-'',
            latest_technicalStatus = orElse (technicalStatus r) ''-''\<rparr>"
proof -
  let ?cmp = "\<lambda>a b. dateDifference (createdAt b) (createdAt a)"
  from assms have "js_sort ?cmp xs \<noteq> []" by (simp add: js_sort_Nil_iff)
  then obtain r rest where s: "js_sort ?cmp xs = r # rest" by (cases "js_sort ?cmp xs") auto
  then have "r \<in> set (js_sort ?cmp xs)" by simp
  then have "r \<in> set xs" by (simp only: set_js_sort)
  with getLatestStatus_of_head [OF s] show ?thesis by blast
qed

lemma js_sort_createdAt_head:
  assumes "xs \<noteq> []" and "\<forall>s \<in> set xs. createdAt s \<noteq> None"
  shows "\<exists>r rest. js_sort (\<lambda>a b. dateDifference (createdAt b) (createdAt a)) xs = r # rest
           \<and> r \<in> set xs \<and> (\<forall>y \<in> set xs. the (createdAt y) \<le> the (createdAt r))"
  using assms
proof (induction xs)
  case Nil
  then show ?case by simp
next
  case (Cons x xs)
  from Cons.prems(2) obtain tx where tx: "createdAt x = Some tx" by auto
  show ?case
  proof (cases "xs = []")
    case True
    then show ?thesis by (simp add: js_sort_Cons js_sort_Nil)
  next
    case False
    from Cons.prems(2) have "\<forall>s \<in> set xs. createdAt s \<noteq> None" by simp
    with Cons.IH False obtain r rest where
      r: "js_sort (\<lambda>a b. dateDifference (createdAt b) (createdAt a)) xs = r # rest"
         "r \<in> set xs" "\<forall>y \<in> set xs. the (createdAt y) \<le> the (createdAt r)"
      by blast
    from r(2) Cons.prems(2) obtain tr where tr: "createdAt r = Some tr" by auto
    show ?thesis
    proof (cases "tr \<le> tx")
      case True
      with r tx tr show ?thesis
        by (auto simp: js_sort_Cons dateDifference_valid intro: order_trans)
    next
      case False
      with r tx tr show ?thesis by (auto simp: js_sort_Cons dateDifference_valid)
    qed
  qed
qed

lemma getLatestStatus_max:
  assumes "xs \<noteq> []" and "\<forall>s \<in> set xs. createdAt s \<noteq> None"
  shows "\<exists>r \<in> set xs. (\<forall>y \<in> set xs. the (createdAt y) \<le> the (createdAt r))
           \<and> getLatestStatus xs =
               \<lparr>latest_code = orElse (code r) ''-'',
                latest_technicalStatus = orElse (technicalStatus r) ''-''\<rparr>"
proof -
  from js_sort_createdAt_head [OF assms] obtain r rest where
    "js_sort (\<lambda>a b. dateDifference (createdAt b) (createdAt a)) xs = r # rest"
    "r \<in> set xs" "\<forall>y \<in> set xs. the (createdAt y) \<le> the (createdAt r)"
    by blast
  then show ?thesis using getLatestStatus_of_head by blast
qed

text \<open>
  Claim C2, as stated, fails in two ways. The code and technicalStatus that
  \<open>getLatestStatus\<close> returns are not always those of a record of the list: for the
  one-record list \<open>[st_pending]\<close>, whose record has no technicalStatus, it returns
  technicalStatus \<open>-\<close>. And the record it reads is not always one with a maximal
  createdAt: in \<open>[st_accepted, st_undated, st_latest]\<close> the second record has no valid
  createdAt, every comparison with it gives \<^verbatim>\<open>NaN\<close>, the list stays as it is and the
  first record is read, although the third one is later.
\<close>

theorem getLatestStatus_counterexample:
  "technicalStatus st_pending = None
   \<and> getLatestStatus [st_pending]
       = \<lparr>latest_code = ''accepted'', latest_technicalStatus = ''-''\<rparr>
   \<and> createdAt st_accepted = Some 3000 \<and> createdAt st_latest = Some 5000
   \<and> code st_latest = Some ''acknowledged''
   \<and> getLatestStatus [st_accepted, st_undated, st_latest]
       = \<lparr>latest_code = ''accepted'', latest_technicalStatus = ''sent''\<rparr>"
  by (simp add: getLatestStatus_def st_pending_def st_accepted_def st_undated_def st_latest_def
      js_sort_Cons js_sort_Nil orElse_def dateDifference_def)

text \<open>
  Claim C2, amended: for every non-empty list of status records whose createdAt are all
  valid dates, \<open>getLatestStatus\<close> returns the code and technicalStatus of a record whose
  createdAt is maximal in the list, each replaced by \<open>-\<close> when it is absent or empty;
  for the empty list it returns the sentinel with code \<open>-\<close> and technicalStatus \<open>-\<close>.
\<close>

theorem getLatestStatus_latest:
  "getLatestStatus [] = \<lparr>latest_code = ''-'', latest_technicalStatus = ''-''\<rparr>
   \<and> (xs \<noteq> [] \<and> (\<forall>s \<in> set xs. createdAt s \<noteq> None) \<longrightarrow>
        (\<exists>r \<in> set xs. \<exists>t. createdAt r = Some t
           \<and> (\<forall>y \<in> set xs. \<exists>u. createdAt y = Some u \<and> u \<le> t)
           \<and> latest_code (getLatestStatus xs)
               = (if truthy (code r) then the (code r) else ''-'')
           \<and> latest_technicalStatus (getLatestStatus xs)
               = (if truthy (technicalStatus r) then the (technicalStatus r) else ''-'')))"
proof -
  have orElse_eq: "orElse v ''-'' = (if truthy v then the v else ''-'')" for v
    by (cases v) (simp_all add: orElse_def truthy_def)
  have "getLatestStatus [] = \<lparr>latest_code = ''-'', latest_technicalStatus = ''-''\<rparr>"
    by (simp add: getLatestStatus_def sentinel_def)
  moreover have "\<exists>r \<in> set xs. \<exists>t. createdAt r = Some t
           \<and> (\<forall>y \<in> set xs. \<exists>u. createdAt y = Some u \<and> u \<le> t)
           \<and> latest_code (getLatestStatus xs)
               = (if truthy (code r) then the (code r) else ''-'')
           \<and> latest_technicalStatus (getLatestStatus xs)
               = (if truthy (technicalStatus r) then the (technicalStatus r) else ''-'')"
    if ne: "xs \<noteq> []" and valid: "\<forall>s \<in> set xs. createdAt s \<noteq> None"
  proof -
    from getLatestStatus_max [OF ne valid] obtain r where
      r: "r \<in> set xs" "\<forall>y \<in> set xs. the (createdAt y) \<le> the (createdAt r)"
      "getLatestStatus xs =
         \<lparr>latest_code = orElse (code r) ''-'',
          latest_technicalStatus = orElse (technicalStatus r) ''-''\<rparr>"
      by blast
    from r(1) valid obtain t where t: "createdAt r = Some t" by auto
    have "\<exists>u. createdAt y = Some u \<and> u \<le> t" if "y \<in> set xs" for y
    proof -
      from that valid obtain u where "createdAt y = Some u" by auto
      with r(2) that t show ?thesis by auto
    qed
    with r(1) r(3) t show ?thesis by (auto simp: orElse_eq)
  qed
  ultimately show ?thesis by blast
qed

theorem getLatestStatus_latest_witness:
  "getLatestStatus [st_received, st_accepted, st_pending]
     = \<lparr>latest_code = ''accepted'', latest_technicalStatus = ''sent''\<rparr>
   \<and> (\<exists>r \<in> set [st_received, st_accepted, st_pending].
         createdAt r = Some 3000
         \<and> latest_code (getLatestStatus [st_received, st_accepted, st_pending])
           = (if truthy (code r) then the (code r) else ''-''))"
proof -
  have v: "[st_received, st_accepted, st_pending] \<noteq> []
      \<and> (\<forall>s \<in> set [st_received, st_accepted, st_pending]. createdAt s \<noteq> None)"
    by (simp add: st_received_def st_accepted_def st_pending_def)
  have e: "getLatestStatus [st_received, st_accepted, st_pending]
     = \<lparr>latest_code = ''accepted'', latest_technicalStatus = ''sent''\<rparr>"
    by (simp add: getLatestStatus_def st_received_def st_accepted_def st_pending_def
        js_sort_Cons js_sort_Nil orElse_def dateDifference_def)
  from getLatestStatus_latest [of "[st_received, st_accepted, st_pending]",
      THEN conjunct2, rule_format, OF v]
  obtain r t where r: "r \<in> set [st_received, st_accepted, st_pending]"
    and t: "createdAt r = Some t"
    and mx: "\<forall>y \<in> set [st_received, st_accepted, st_pending]. \<exists>u. createdAt y = Some u \<and> u \<le> t"
    and c: "latest_code (getLatestStatus [st_received, st_accepted, st_pending])
           = (if truthy (code r) then the (code r) else ''-'')"
    by blast
  from mx have "3000 \<le> t" by (simp add: st_accepted_def)
  moreover from r t have "t \<le> 3000"
    by (auto simp: st_received_def st_accepted_def st_pending_def)
  ultimately have "createdAt r = Some 3000" using t by simp
  with e r c show ?thesis by blast
qed

lemma getLatestStatus_perm:
  assumes perm: "mset xs = mset ys"
    and valid: "\<forall>s \<in> set xs. createdAt s \<noteq> None"
    and dist: "distinct (map createdAt xs)"
  shows "getLatestStatus xs = getLatestStatus ys"
proof (cases "xs = []")
  case True
  with perm show ?thesis by simp
next
  case False
  with perm have ys: "ys \<noteq> []" by auto
  from perm have sets: "set xs = set ys" by (rule mset_eq_setD)
  from valid sets have valid': "\<forall>s \<in> set ys. createdAt s \<noteq> None" by simp
  from getLatestStatus_max [OF False valid] obtain r where
    r: "r \<in> set xs" "\<forall>y \<in> set xs. the (createdAt y) \<le> the (createdAt r)"
       "getLatestStatus xs =
          \<lparr>latest_code = orElse (code r) ''-'',
           latest_technicalStatus = orElse (technicalStatus r) ''-''\<rparr>"
    by blast
  from getLatestStatus_max [OF ys valid'] obtain r' where
    r': "r' \<in> set ys" "\<forall>y \<in> set ys. the (createdAt y) \<le> the (createdAt r')"
        "getLatestStatus ys =
           \<lparr>latest_code = orElse (code r') ''-'',
            latest_technicalStatus = orElse (technicalStatus r') ''-''\<rparr>"
    by blast
  from r r' sets have "the (createdAt r) = the (createdAt r')" by (simp add: order_antisym)
  moreover from r(1) valid obtain t where "createdAt r = Some t" by auto
  moreover from r'(1) valid' obtain t' where "createdAt r' = Some t'" by auto
  ultimately have "createdAt r = createdAt r'" by simp
  moreover from dist have "inj_on createdAt (set xs)" by (simp add: distinct_map)
  ultimately have "r = r'" using r(1) r'(1) sets by (auto dest: inj_onD)
  with r(3) r'(3) show ?thesis by simp
qed

lemma getLatestStatus_store_eq:
  assumes "a < length h"
  shows "fst (getLatestStatus_store h a) = getLatestStatus (h ! a)"
    and "take (length h) (snd (getLatestStatus_store h a)) = h"
  using assms
  by (auto simp: getLatestStatus_store_def getLatestStatus_def spread_def sort_in_place_def
      nth_append Let_def split: list.splits)

text \<open>
  Claim C9, as stated, fails for \<open>getLatestStatus\<close>: \<open>[st_received, st_undated]\<close> and
  \<open>[st_undated, st_received]\<close> are permutations of each other with distinct createdAt,
  but one record has no valid createdAt, the comparator gives \<^verbatim>\<open>NaN\<close>, the order of
  the list is kept and the first record is read in each.
\<close>

theorem statusResolver_order_counterexample:
  "mset [st_received, st_undated] = mset [st_undated, st_received]
   \<and> distinct (map createdAt [st_received, st_undated])
   \<and> getLatestStatus [st_received, st_undated]
       = \<lparr>latest_code = ''received'', latest_technicalStatus = ''delivered''\<rparr>
   \<and> getLatestStatus [st_undated, st_received]
       = \<lparr>latest_code = ''rejected'', latest_technicalStatus = ''sent''\<rparr>"
  by (simp add: getLatestStatus_def st_received_def st_undated_def
      js_sort_Cons js_sort_Nil orElse_def dateDifference_def)

text \<open>
  Claim C9, amended: \<open>hasStatus\<close> and \<open>hasAnyStatus\<close> return the same result on every
  permutation of a status list, and so does \<open>getLatestStatus\<close> when the createdAt of the
  list are all valid dates and distinct; none of the three changes the list it is given:
  on the store of arrays each computes the same result as on the list and leaves every
  array that existed before the call as it was (\<open>getLatestStatus\<close> sorts a fresh copy,
  the other two write nothing).
\<close>

theorem statusResolver_order_independent:
  "(mset xs = mset ys \<longrightarrow>
      hasStatus xs c = hasStatus ys c
      \<and> hasAnyStatus xs cs = hasAnyStatus ys cs
      \<and> ((\<forall>s \<in> set xs. createdAt s \<noteq> None) \<and> distinct (map createdAt xs)
           \<longrightarrow> getLatestStatus xs = getLatestStatus ys))
   \<and> (a < length h \<longrightarrow>
        fst (getLatestStatus_store h a) = getLatestStatus (h ! a)
        \<and> take (length h) (snd (getLatestStatus_store h a)) = h
        \<and> hasStatus_store h a c = (hasStatus (h ! a) c, h)
        \<and> hasAnyStatus_store h a cs = (hasAnyStatus (h ! a) cs, h))"
proof -
  have "hasStatus xs c = hasStatus ys c" if "mset xs = mset ys"
    using mset_eq_setD [OF that] by (simp add: hasStatus_def list_ex_iff)
  moreover have "hasAnyStatus xs cs = hasAnyStatus ys cs" if "mset xs = mset ys"
    using mset_eq_setD [OF that] by (simp add: hasAnyStatus_def list_ex_iff)
  moreover have "hasStatus_store h a c = (hasStatus (h ! a) c, h)"
    by (simp add: hasStatus_store_def hasStatus_def)
  moreover have "hasAnyStatus_store h a cs = (hasAnyStatus (h ! a) cs, h)"
    by (simp add: hasAnyStatus_store_def hasAnyStatus_def)
  ultimately show ?thesis
    using getLatestStatus_perm getLatestStatus_store_eq by blast
qed

theorem statusResolver_order_independent_witness:
  "hasStatus [st_received, st_accepted] ''accepted''
   \<and> hasStatus [st_accepted, st_received] ''accepted''
   \<and> hasAnyStatus [st_received, st_accepted] finalStatuses
       = hasAnyStatus [st_accepted, st_received] finalStatuses
   \<and> getLatestStatus [st_received, st_accepted] = getLatestStatus [st_accepted, st_received]
   \<and> getLatestStatus [st_accepted, st_received]
       = \<lparr>latest_code = ''accepted'', latest_technicalStatus = ''sent''\<rparr>
   \<and> fst (getLatestStatus_store [[st_received, st_accepted]] 0)
       = \<lparr>latest_code = ''accepted'', latest_technicalStatus = ''sent''\<rparr>
   \<and> take 1 (snd (getLatestStatus_store [[st_received, st_accepted]] 0))
       = [[st_received, st_accepted]]
   \<and> hasStatus_store [[st_received, st_accepted]] 0 ''accepted''
       = (True, [[st_received, st_accepted]])"
  using statusResolver_order_independent
    [of "[st_received, st_accepted]" "[st_accepted, st_received]" "''accepted''"
        finalStatuses 0 "[[st_received, st_accepted]]"]
  by (simp add: hasStatus_def getLatestStatus_def st_received_def st_accepted_def
      js_sort_Cons js_sort_Nil orElse_def dateDifference_def)

section \<open>Properties of the outbound index and the matching\<close>

lemma find_append_cases:
  "find P (xs @ ys) = (case find P xs of None \<Rightarrow> find P ys | Some x \<Rightarrow> Some x)"
  by (induction xs) auto

lemma newMap_snoc: "newMap (entries @ [(k, v)]) = (newMap entries)(k \<mapsto> v)"
  by (simp add: newMap_def)

lemma newMap_keyed:
  "newMap (map (\<lambda>d. (g d, d)) ds) k = find (\<lambda>d. g d = k) (rev ds)"
proof (induction ds rule: rev_induct)
  case Nil
  show ?case by (simp add: newMap_def)
next
  case (snoc x xs)
  then show ?case by (simp add: newMap_snoc)
qed

lemma find_rev_filter:
  "find Q (rev (filter P ds)) = find (\<lambda>d. P d \<and> Q d) (rev ds)"
proof (induction ds rule: rev_induct)
  case Nil
  show ?case by simp
next
  case (snoc x xs)
  then show ?case by auto
qed

lemma outbound_index_lookup:
  "newMap (map (\<lambda>doc. (transmissionId doc, doc))
      (filter (\<lambda>doc. truthy (transmissionId doc)) docs)) k
   = find (\<lambda>d. truthy (transmissionId d) \<and> transmissionId d = k) (rev docs)"
  by (simp add: newMap_keyed find_rev_filter)

lemma outbound_index_last:
  assumes "docs = pre @ d # post" "transmissionId d = Some k" "k \<noteq> []"
    and "\<forall>d' \<in> set post. transmissionId d' \<noteq> Some k"
  shows "find (\<lambda>d. truthy (transmissionId d) \<and> transmissionId d = Some k) (rev docs) = Some d"
proof -
  have "find (\<lambda>d. truthy (transmissionId d) \<and> transmissionId d = Some k) (rev post) = None"
    using assms(4) by (auto simp: find_None_iff)
  then show ?thesis
    using assms(1-3) by (simp add: find_append_cases truthy_def)
qed

lemma find_SomeD: "find P xs = Some x \<Longrightarrow> P x \<and> x \<in> set xs"
  by (induction xs) (auto split: if_splits)

lemma outbound_index_sound:
  assumes "find (\<lambda>d. truthy (transmissionId d) \<and> transmissionId d = k) (rev docs) = Some d"
  shows "truthy k \<and> transmissionId d = k \<and> d \<in> set docs"
  using find_SomeD [OF assms] by auto

lemma outbound_index_dom:
  "(find (\<lambda>d. truthy (transmissionId d) \<and> transmissionId d = k) (rev docs) \<noteq> None)
   \<longleftrightarrow> truthy k \<and> (\<exists>d \<in> set docs. transmissionId d = k)"
  by (auto simp: find_None_iff)

text \<open>
  Claim C7: when several fetched outbound documents carry the same transmission
  identifier, the index built by \<open>buildOutboundMap\<close> maps that identifier to the one
  that occurs last in the fetched list; a document whose transmission identifier is
  absent or empty is not in the index (every entry of the index has a non-empty key,
  which is the transmission identifier of the document it holds).
\<close>

theorem buildOutboundMap_last_wins:
  assumes "fetchOutboundDocuments api = Inr docs"
  shows "\<exists>om. buildOutboundMap api = Inr om
           \<and> (\<forall>pre d post k.
                 docs = pre @ d # post \<and> transmissionId d = Some k \<and> k \<noteq> []
                 \<and> (\<forall>d' \<in> set post. transmissionId d' \<noteq> Some k)
                 \<longrightarrow> om (Some k) = Some d)
           \<and> (\<forall>k d. om k = Some d \<longrightarrow> truthy k \<and> transmissionId d = k \<and> d \<in> set docs)"
proof -
  define om where "om = newMap (map (\<lambda>doc. (transmissionId doc, doc))
      (filter (\<lambda>doc. truthy (transmissionId doc)) docs))"
  have built: "buildOutboundMap api = Inr om"
    using assms by (simp add: buildOutboundMap_def om_def)
  have lookup: "om k = find (\<lambda>d. truthy (transmissionId d) \<and> transmissionId d = k) (rev docs)"
    for k
    unfolding om_def by (rule outbound_index_lookup)
  have last: "om (Some k) = Some d"
    if "docs = pre @ d # post" "transmissionId d = Some k" "k \<noteq> []"
      "\<forall>d' \<in> set post. transmissionId d' \<noteq> Some k" for pre d post k
    using outbound_index_last [OF that] by (simp add: lookup)
  have sound: "truthy k \<and> transmissionId d = k \<and> d \<in> set docs" if "om k = Some d" for k d
    using that outbound_index_sound [of k docs d] by (simp add: lookup)
  from built last sound show ?thesis by blast
qed


theorem buildOutboundMap_last_wins_witness:
  "\<exists>om. buildOutboundMap demo_api = Inr om
      \<and> om (Some ''T2'') = Some out2b \<and> om (Some ''T1'') = Some out1
      \<and> om (Some []) = None \<and> om None = None"
proof -
  have outb: "fetchOutboundDocuments demo_api = Inr [out1, out2a, out3, out2b]"
    by (simp add: demo_api_def)
  from buildOutboundMap_last_wins [OF outb]
  obtain om where om: "buildOutboundMap demo_api = Inr om"
    and last_wins: "\<forall>pre d post k.
        [out1, out2a, out3, out2b] = pre @ d # post \<and> transmissionId d = Some k \<and> k \<noteq> []
        \<and> (\<forall>d' \<in> set post. transmissionId d' \<noteq> Some k) \<longrightarrow> om (Some k) = Some d"
    and sound: "\<forall>k d. om k = Some d \<longrightarrow>
        truthy k \<and> transmissionId d = k \<and> d \<in> set [out1, out2a, out3, out2b]"
    by (elim exE conjE)
  have "[out1, out2a, out3, out2b] = [out1, out2a, out3] @ out2b # []
      \<and> transmissionId out2b = Some ''T2'' \<and> ''T2'' \<noteq> []
      \<and> (\<forall>d' \<in> set []. transmissionId d' \<noteq> Some ''T2'')"
    by (simp add: out2b_def)
  then have t2: "om (Some ''T2'') = Some out2b" by (rule last_wins [rule_format])
  have "[out1, out2a, out3, out2b] = [] @ out1 # [out2a, out3, out2b]
      \<and> transmissionId out1 = Some ''T1'' \<and> ''T1'' \<noteq> []
      \<and> (\<forall>d' \<in> set [out2a, out3, out2b]. transmissionId d' \<noteq> Some ''T1'')"
    by (simp add: out1_def out2a_def out2b_def out3_def)
  then have t1: "om (Some ''T1'') = Some out1" by (rule last_wins [rule_format])
  have e: "om (Some []) = None"
  proof (cases "om (Some [])")
    case (Some d)
    from sound [rule_format, OF Some] show ?thesis by (simp add: truthy_def)
  qed simp
  have n: "om None = None"
  proof (cases "om None")
    case (Some d)
    from sound [rule_format, OF Some] show ?thesis by (simp add: truthy_def)
  qed simp
  from om t2 t1 e n show ?thesis by blast
qed

lemma findMatches_inbound:
  "map inbound (findMatches inb om) = filter (\<lambda>d. transmissionId d \<in> dom om) inb"
  by (simp add: findMatches_def comp_def dom_def)

lemma findMatches_fields:
  "m \<in> set (findMatches inb om) \<Longrightarrow>
     inbound m \<in> set inb \<and> outbound m = om (transmissionId (inbound m))
     \<and> outbound m \<noteq> None \<and> m_transmissionId m = transmissionId (inbound m)"
  by (auto simp: findMatches_def)

lemma fetchAndMatchDocuments_eq:
  assumes "fetchInboundDocuments api = Inr inb" "buildOutboundMap api = Inr om"
  shows "fetchAndMatchDocuments api = Inr (findMatches inb om)"
  using assms by (auto simp: fetchAndMatchDocuments_def Let_def findMatches_def)

text \<open>
  Claim C3: the computed match list has a match for an inbound document exactly when the
  document's transmission identifier is present, non-empty and carried by some fetched
  outbound document; the matched inbound documents are exactly the fetched inbound
  documents whose transmission identifier is a key of the outbound index, in order.
\<close>

theorem fetchAndMatchDocuments_iff:
  assumes "fetchInboundDocuments api = Inr inb" "fetchOutboundDocuments api = Inr outb"
  shows "\<exists>ms om. fetchAndMatchDocuments api = Inr ms \<and> buildOutboundMap api = Inr om
           \<and> map inbound ms = filter (\<lambda>d. transmissionId d \<in> dom om) inb
           \<and> (\<forall>d. (\<exists>m \<in> set ms. inbound m = d)
                 \<longleftrightarrow> d \<in> set inb \<and> truthy (transmissionId d)
                     \<and> (\<exists>ob \<in> set outb. transmissionId ob = transmissionId d))"
proof -
  define om where "om = newMap (map (\<lambda>doc. (transmissionId doc, doc))
      (filter (\<lambda>doc. truthy (transmissionId doc)) outb))"
  have built: "buildOutboundMap api = Inr om"
    using assms(2) by (simp add: buildOutboundMap_def om_def)
  have dom_om: "k \<in> dom om \<longleftrightarrow> truthy k \<and> (\<exists>ob \<in> set outb. transmissionId ob = k)" for k
    using outbound_index_dom [of k outb] by (auto simp: om_def outbound_index_lookup dom_def)
  have ms: "fetchAndMatchDocuments api = Inr (findMatches inb om)"
    using assms(1) built by (rule fetchAndMatchDocuments_eq)
  have inb_ms: "map inbound (findMatches inb om) = filter (\<lambda>d. transmissionId d \<in> dom om) inb"
    by (rule findMatches_inbound)
  have "(\<exists>m \<in> set (findMatches inb om). inbound m = d)
          \<longleftrightarrow> d \<in> set inb \<and> truthy (transmissionId d)
              \<and> (\<exists>ob \<in> set outb. transmissionId ob = transmissionId d)" for d
  proof -
    have "(\<exists>m \<in> set (findMatches inb om). inbound m = d)
            \<longleftrightarrow> d \<in> set (map inbound (findMatches inb om))"
      by auto
    also have "\<dots> \<longleftrightarrow> d \<in> set inb \<and> transmissionId d \<in> dom om"
      by (simp only: inb_ms set_filter) blast
    finally show ?thesis by (simp add: dom_om)
  qed
  with built ms inb_ms show ?thesis by blast
qed

theorem fetchAndMatchDocuments_iff_witness:
  "fetchAndMatchDocuments demo_api
     = Inr [\<lparr>inbound = in1, outbound = Some out1, m_transmissionId = Some ''T1''\<rparr>,
            \<lparr>inbound = in2, outbound = Some out2b, m_transmissionId = Some ''T2''\<rparr>]
   \<and> (\<exists>ms. fetchAndMatchDocuments demo_api = Inr ms
         \<and> (\<exists>m \<in> set ms. inbound m = in1) \<and> \<not> (\<exists>m \<in> set ms. inbound m = in3))"
proof -
  have eval: "fetchAndMatchDocuments demo_api
     = Inr [\<lparr>inbound = in1, outbound = Some out1, m_transmissionId = Some ''T1''\<rparr>,
            \<lparr>inbound = in2, outbound = Some out2b, m_transmissionId = Some ''T2''\<rparr>]"
    by (simp add: fetchAndMatchDocuments_def buildOutboundMap_def findMatches_def newMap_def
        demo_api_def in1_def in2_def in3_def out1_def out2a_def out2b_def out3_def truthy_def)
  have inb: "fetchInboundDocuments demo_api = Inr [in1, in2, in3]"
    and outb: "fetchOutboundDocuments demo_api = Inr [out1, out2a, out3, out2b]"
    by (simp_all add: demo_api_def)
  from fetchAndMatchDocuments_iff [OF inb outb]
  obtain ms where ms: "fetchAndMatchDocuments demo_api = Inr ms"
    and iff: "\<And>d. (\<exists>m \<in> set ms. inbound m = d)
                 \<longleftrightarrow> d \<in> set [in1, in2, in3] \<and> truthy (transmissionId d)
                     \<and> (\<exists>ob \<in> set [out1, out2a, out3, out2b]. transmissionId ob = transmissionId d)"
    by blast
  have 1: "\<exists>m \<in> set ms. inbound m = in1"
    by (simp add: iff in1_def out1_def truthy_def)
  have 3: "\<not> (\<exists>m \<in> set ms. inbound m = in3)"
    by (simp add: iff in3_def truthy_def)
  from eval ms 1 3 show ?thesis by blast
qed

section \<open>Properties of the XML field extraction\<close>

lemma firstMatch_Some:
  "firstMatch f s = Some g \<Longrightarrow> \<exists>pre suf. s = pre @ suf \<and> f suf = Some g"
proof (induction s)
  case Nil
  then show ?case by simp
next
  case (Cons c cs)
  show ?case
  proof (cases "f (c # cs)")
    case (Some g')
    with Cons.prems have "f (c # cs) = Some g" by simp
    then have "c # cs = [] @ (c # cs) \<and> f (c # cs) = Some g" by simp
    then show ?thesis by blast
  next
    case None
    with Cons.prems have "firstMatch f cs = Some g" by simp
    with Cons.IH obtain pre suf where "cs = pre @ suf" "f suf = Some g" by blast
    then have "c # cs = (c # pre) @ suf \<and> f suf = Some g" by simp
    then show ?thesis by blast
  qed
qed

lemma matchAt_Some: "matchAt openTag closeTag s = Some g \<Longrightarrow> \<exists>post. s = openTag @ post"
  by (auto simp: matchAt_def prefix_def split: if_splits)

lemma extractField_Some:
  assumes "extractField xml tagName = Some g"
  shows "\<exists>pre post. xml = pre @ (''<cbc:'' @ tagName @ ''>'') @ post"
proof -
  from assms obtain pre suf where
    "xml = pre @ suf" "matchAt (''<cbc:'' @ tagName @ ''>'') (''</cbc:'' @ tagName @ ''>'') suf = Some g"
    unfolding extractField_def using firstMatch_Some by blast
  moreover from this(2) obtain post where "suf = (''<cbc:'' @ tagName @ ''>'') @ post"
    using matchAt_Some by blast
  ultimately show ?thesis by blast
qed

lemma extractField_IssueDate_None:
  assumes "\<nexists>pre post. xml = pre @ ''<cbc:IssueDate>'' @ post"
  shows "extractField xml ''IssueDate'' = None"
proof (cases "extractField xml ''IssueDate''")
  case None
  then show ?thesis .
next
  case (Some g)
  from extractField_Some [OF Some] obtain pre post where
    "xml = pre @ (''<cbc:'' @ ''IssueDate'' @ ''>'') @ post" by blast
  then have "xml = pre @ ''<cbc:IssueDate>'' @ post" by simp
  with assms show ?thesis by blast
qed

section \<open>Properties of the date partition\<close>

lemma invoiceDateOf_fetch_failed:
  assumes "fetchDocumentXml api (doc_id (inbound m)) = Inl e"
  shows "invoiceDateOf h api m = newDate h (doc_createdAt (inbound m))"
  using assms by (simp add: invoiceDateOf_def fetchXmlDetailsSafe_def)

lemma invoiceDateOf_no_issueDate:
  assumes "fetchDocumentXml api (doc_id (inbound m)) = Inr xml"
    and "\<nexists>pre post. xml = pre @ ''<cbc:IssueDate>'' @ post"
  shows "invoiceDateOf h api m = newDate h (doc_createdAt (inbound m))"
  using assms(1) extractField_IssueDate_None [OF assms(2)]
  by (simp add: invoiceDateOf_def fetchXmlDetailsSafe_def parseInvoiceDetails_def truthy_def)

lemma foldl_splitStep:
  "foldl (splitStep h api c) acc ms =
     \<lparr>nov28AndLater = nov28AndLater acc
        @ filter (\<lambda>m. date_ge (dateOnly h (invoiceDateOf h api m)) (dateOnly h c)) ms,
      beforeNov28 = beforeNov28 acc
        @ filter (\<lambda>m. \<not> date_ge (dateOnly h (invoiceDateOf h api m)) (dateOnly h c)) ms\<rparr>"
proof (induction ms arbitrary: acc)
  case Nil
  show ?case by simp
next
  case (Cons m ms)
  have "foldl (splitStep h api c) acc (m # ms)
          = foldl (splitStep h api c) (splitStep h api c acc m) ms"
    by simp
  also note Cons.IH [of "splitStep h api c acc m"]
  finally have unfolded: "foldl (splitStep h api c) acc (m # ms) =
     \<lparr>nov28AndLater = nov28AndLater (splitStep h api c acc m)
        @ filter (\<lambda>m. date_ge (dateOnly h (invoiceDateOf h api m)) (dateOnly h c)) ms,
      beforeNov28 = beforeNov28 (splitStep h api c acc m)
        @ filter (\<lambda>m. \<not> date_ge (dateOnly h (invoiceDateOf h api m)) (dateOnly h c)) ms\<rparr>" .
  have a: "nov28AndLater (splitStep h api c acc m) = nov28AndLater acc
      @ (if date_ge (dateOnly h (invoiceDateOf h api m)) (dateOnly h c) then [m] else [])"
    by (simp add: splitStep_def)
  have b: "beforeNov28 (splitStep h api c acc m) = beforeNov28 acc
      @ (if date_ge (dateOnly h (invoiceDateOf h api m)) (dateOnly h c) then [] else [m])"
    by (simp add: splitStep_def)
  show ?case unfolding unfolded a b by simp
qed

lemma splitByDate_filter:
  "splitByDate h api matches c =
     \<lparr>nov28AndLater =
        filter (\<lambda>m. date_ge (dateOnly h (invoiceDateOf h api m)) (dateOnly h c)) matches,
      beforeNov28 =
        filter (\<lambda>m. \<not> date_ge (dateOnly h (invoiceDateOf h api m)) (dateOnly h c)) matches\<rparr>"
  by (simp add: splitByDate_def foldl_splitStep)

lemma mset_filter_both: "mset (filter P xs) + mset (filter (\<lambda>x. \<not> P x) xs) = mset xs"
  by (induction xs) auto

text \<open>
  Claim C5: a match whose resolved invoice date falls on the same day as the cutoff
  (the day-level comparison of \<open>splitByDate\<close> against the cutoff constant 2025-11-28)
  is placed in the on/after-cutoff partition and not in the before-cutoff partition:
  the comparison is inclusive.
\<close>

theorem splitByDate_cutoff_inclusive:
  assumes "m \<in> set matches"
    and "invoiceDateOf h api m = Some t"
    and "getFullYear h t = getFullYear h cutoffTime"
    and "getMonth h t = getMonth h cutoffTime"
    and "getDate h t = getDate h cutoffTime"
    and "dateOnly h cutoffDate \<noteq> None"
  shows "m \<in> set (nov28AndLater (splitByDate h api matches cutoffDate))
       \<and> m \<notin> set (beforeNov28 (splitByDate h api matches cutoffDate))"
proof -
  have "dateOnly h (invoiceDateOf h api m) = dateOnly h cutoffDate"
    using assms(2-5) by (simp add: dateOnly_def cutoffDate_def)
  with assms(6) have "date_ge (dateOnly h (invoiceDateOf h api m)) (dateOnly h cutoffDate)"
    by (auto simp: date_ge_def)
  with assms(1) show ?thesis by (simp add: splitByDate_filter)
qed

lemma demo_isoDay_20: "isoDay ''2025-11-20'' = Some 20412"
  by (simp add: isoDay_def isDigit_def digitValue_def daysInMonth_def days_from_civil_def)

lemma demo_isoDay_28: "isoDay ''2025-11-28'' = Some 20420"
  by (simp add: isoDay_def isDigit_def digitValue_def daysInMonth_def days_from_civil_def)

lemma demo_isoTime_0930: "isoTime ''T09:30:00Z'' = Some 34200000"
  by (simp add: isoTime_def isDigit_def digitValue_def)

lemma demo_parse_in2: "utc_dateParse ''2025-11-28T09:30:00Z'' = Some 1764322200000"
  by (simp add: utc_dateParse_def demo_isoDay_28 demo_isoTime_0930)

lemma demo_parse_issue1: "utc_dateParse ''2025-11-20'' = Some 1763596800000"
  by (simp add: utc_dateParse_def demo_isoDay_20)

lemma demo_civil_cutoff: "civil_from_days 20420 = (2025, 11, 28)"
  by code_simp

lemma demo_civil_20: "civil_from_days 20412 = (2025, 11, 20)"
  by code_simp

lemma demo_days_cutoff: "days_from_civil 2025 11 28 = 20420"
  by code_simp

lemma demo_days_20: "days_from_civil 2025 11 20 = 20412"
  by code_simp

lemma demo_dateOnly_cutoff: "dateOnly utc_host cutoffDate = Some 1764288000000"
  by (simp add: dateOnly_def cutoffDate_def cutoffTime_def utc_host_def utc_newLocalDate_def
      demo_civil_cutoff demo_days_cutoff)

lemma demo_dateOnly_in2: "dateOnly utc_host (Some 1764322200000) = Some 1764288000000"
  by (simp add: dateOnly_def utc_host_def utc_newLocalDate_def demo_civil_cutoff demo_days_cutoff)

lemma demo_dateOnly_in1: "dateOnly utc_host (Some 1763596800000) = Some 1763596800000"
  by (simp add: dateOnly_def utc_host_def utc_newLocalDate_def demo_civil_20 demo_days_20)

lemma demo_issueDate_xml1: "extractField demo_xml1 ''IssueDate'' = Some ''2025-11-20''"
  by (simp add: extractField_def matchAt_def demo_xml1_def)

lemma demo_invoiceDate_in2:
  "invoiceDateOf utc_host demo_api
     \<lparr>inbound = in2, outbound = Some out2b, m_transmissionId = Some ''T2''\<rparr>
   = Some 1764322200000"
  by (simp add: invoiceDateOf_def fetchXmlDetailsSafe_def demo_api_def in2_def newDate_def
      utc_host_def demo_parse_in2)

lemma demo_invoiceDate_in1:
  "invoiceDateOf utc_host demo_api
     \<lparr>inbound = in1, outbound = Some out1, m_transmissionId = Some ''T1''\<rparr>
   = Some 1763596800000"
  by (simp add: invoiceDateOf_def fetchXmlDetailsSafe_def parseInvoiceDetails_def
      demo_issueDate_xml1 truthy_def demo_api_def in1_def newDate_def utc_host_def
      demo_parse_issue1)

theorem splitByDate_cutoff_inclusive_witness:
  "invoiceDateOf utc_host demo_api
      \<lparr>inbound = in2, outbound = Some out2b, m_transmissionId = Some ''T2''\<rparr>
     = Some 1764322200000
   \<and> \<lparr>inbound = in2, outbound = Some out2b, m_transmissionId = Some ''T2''\<rparr>
       \<in> set (nov28AndLater (splitByDate utc_host demo_api
            [\<lparr>inbound = in1, outbound = Some out1, m_transmissionId = Some ''T1''\<rparr>,
             \<lparr>inbound = in2, outbound = Some out2b, m_transmissionId = Some ''T2''\<rparr>]
            cutoffDate))"
proof -
  let ?m2 = "\<lparr>inbound = in2, outbound = Some out2b, m_transmissionId = Some ''T2''\<rparr>"
  let ?ms = "[\<lparr>inbound = in1, outbound = Some out1, m_transmissionId = Some ''T1''\<rparr>, ?m2]"
  have 1: "?m2 \<in> set ?ms" by simp
  have 2: "invoiceDateOf utc_host demo_api ?m2 = Some 1764322200000"
    by (rule demo_invoiceDate_in2)
  have d: "1764322200000 div 86400000 = (20420::int)" "cutoffTime div 86400000 = 20420"
    by (simp_all add: cutoffTime_def)
  have 3: "getFullYear utc_host 1764322200000 = getFullYear utc_host cutoffTime"
    by (simp add: utc_host_def d)
  have 4: "getMonth utc_host 1764322200000 = getMonth utc_host cutoffTime"
    by (simp add: utc_host_def d)
  have 5: "getDate utc_host 1764322200000 = getDate utc_host cutoffTime"
    by (simp add: utc_host_def d)
  have 6: "dateOnly utc_host cutoffDate \<noteq> None"
    by (simp add: demo_dateOnly_cutoff)
  from splitByDate_cutoff_inclusive [OF 1 2 3 4 5 6] 2 show ?thesis by simp
qed

text \<open>
  Claim C10: in \<open>splitByDate\<close>, for a match whose XML fetch fails or whose XML has no
  \<open>cbc:IssueDate\<close> element, the date classified is the inbound document's createdAt;
  every match is placed in exactly one of the two partitions (the one the inclusive
  comparison selects), and the two partitions together hold all matches.
\<close>

theorem splitByDate_fallback_partition:
  "((fetchDocumentXml api (doc_id (inbound m)) = Inl e
      \<or> (fetchDocumentXml api (doc_id (inbound m)) = Inr xml
           \<and> (\<nexists>pre post. xml = pre @ ''<cbc:IssueDate>'' @ post)))
     \<longrightarrow> invoiceDateOf h api m = newDate h (doc_createdAt (inbound m)))
   \<and> mset (nov28AndLater (splitByDate h api matches c))
       + mset (beforeNov28 (splitByDate h api matches c)) = mset matches
   \<and> set (nov28AndLater (splitByDate h api matches c))
       \<inter> set (beforeNov28 (splitByDate h api matches c)) = {}
   \<and> (m \<in> set matches \<longrightarrow>
        (m \<in> set (nov28AndLater (splitByDate h api matches c))
           \<longleftrightarrow> date_ge (dateOnly h (invoiceDateOf h api m)) (dateOnly h c))
        \<and> (m \<in> set (beforeNov28 (splitByDate h api matches c))
           \<longleftrightarrow> \<not> date_ge (dateOnly h (invoiceDateOf h api m)) (dateOnly h c)))"
proof -
  have "invoiceDateOf h api m = newDate h (doc_createdAt (inbound m))"
    if "fetchDocumentXml api (doc_id (inbound m)) = Inl e
      \<or> (fetchDocumentXml api (doc_id (inbound m)) = Inr xml
           \<and> (\<nexists>pre post. xml = pre @ ''<cbc:IssueDate>'' @ post))"
    using that invoiceDateOf_fetch_failed invoiceDateOf_no_issueDate by blast
  moreover have "mset (nov28AndLater (splitByDate h api matches c))
       + mset (beforeNov28 (splitByDate h api matches c)) = mset matches"
    by (simp only: splitByDate_filter date_split.simps mset_filter_both)
  moreover have "set (nov28AndLater (splitByDate h api matches c))
       \<inter> set (beforeNov28 (splitByDate h api matches c)) = {}"
    by (auto simp: splitByDate_filter)
  ultimately show ?thesis by (simp add: splitByDate_filter)
qed

theorem splitByDate_fallback_partition_witness:
  "fetchDocumentXml demo_api (doc_id in2) = Inl demo_error
   \<and> invoiceDateOf utc_host demo_api
        \<lparr>inbound = in2, outbound = Some out2b, m_transmissionId = Some ''T2''\<rparr>
       = newDate utc_host (Some ''2025-11-28T09:30:00Z'')
   \<and> splitByDate utc_host demo_api
        [\<lparr>inbound = in1, outbound = Some out1, m_transmissionId = Some ''T1''\<rparr>,
         \<lparr>inbound = in2, outbound = Some out2b, m_transmissionId = Some ''T2''\<rparr>] cutoffDate
       = \<lparr>nov28AndLater = [\<lparr>inbound = in2, outbound = Some out2b, m_transmissionId = Some ''T2''\<rparr>],
          beforeNov28 = [\<lparr>inbound = in1, outbound = Some out1, m_transmissionId = Some ''T1''\<rparr>]\<rparr>"
proof -
  let ?m1 = "\<lparr>inbound = in1, outbound = Some out1, m_transmissionId = Some ''T1''\<rparr>"
  let ?m2 = "\<lparr>inbound = in2, outbound = Some out2b, m_transmissionId = Some ''T2''\<rparr>"
  have f: "fetchDocumentXml demo_api (doc_id (inbound ?m2)) = Inl demo_error"
    by (simp add: demo_api_def in2_def)
  have "fetchDocumentXml demo_api (doc_id (inbound ?m2)) = Inl demo_error
      \<or> (fetchDocumentXml demo_api (doc_id (inbound ?m2)) = Inr []
           \<and> (\<nexists>pre post. [] = pre @ ''<cbc:IssueDate>'' @ post))"
    using f by (rule disjI1)
  then have d2: "invoiceDateOf utc_host demo_api ?m2 = newDate utc_host (doc_createdAt (inbound ?m2))"
    by (rule splitByDate_fallback_partition
        [of demo_api ?m2 demo_error "[]" utc_host "[?m1, ?m2]" cutoffDate,
         THEN conjunct1, rule_format])
  have "splitByDate utc_host demo_api [?m1, ?m2] cutoffDate
          = \<lparr>nov28AndLater = [?m2], beforeNov28 = [?m1]\<rparr>"
    by (simp add: splitByDate_filter demo_invoiceDate_in1 demo_invoiceDate_in2
        demo_dateOnly_cutoff demo_dateOnly_in1 demo_dateOnly_in2 date_ge_def)
  with f d2 show ?thesis by (simp add: in2_def)
qed

section \<open>Properties of the status submission\<close>

lemma errorMessage_cases:
  "errorMessage e =
     (case response_errors e of
        Some (first # rest) \<Rightarrow> (if truthy (detail first) then the (detail first) else message e)
      | _ \<Rightarrow> message e)"
  by (auto simp: errorMessage_def orElse_def truthy_def split: option.splits list.splits)

text \<open>
  Claim C6: \<open>sendStatus\<close> never throws. Whatever the submission does, it returns a result
  carrying the attempted status code; when the submission fails, the result has
  \<open>success = false\<close> and as error the detail of the first JSON:API error of the response
  when there is one (and it is non-empty), otherwise the error's message; when the
  submission returns the created resource, the result has \<open>success = true\<close> with the
  resource's id and technical status.
\<close>

theorem sendStatus_never_throws:
  "(sendBusinessStatus api d c = Inl e \<longrightarrow>
      sendStatus api d c =
        \<lparr>success = False, sent_statusCode = c, statusId = None, sent_technicalStatus = None,
         error = Some (case response_errors e of
                         Some (first # rest) \<Rightarrow>
                           (if truthy (detail first) then the (detail first) else message e)
                       | _ \<Rightarrow> message e)\<rparr>)
   \<and> (sendBusinessStatus api d c = Inr (Some r) \<and> res_technicalStatus r = Some ts \<longrightarrow>
        sendStatus api d c =
          \<lparr>success = True, sent_statusCode = c, statusId = res_id r,
           sent_technicalStatus = ts, error = None\<rparr>)
   \<and> sent_statusCode (sendStatus api d c) = c
   \<and> (\<not> success (sendStatus api d c) \<longrightarrow> error (sendStatus api d c) \<noteq> None)"
proof -
  have 1: "sendStatus api d c =
        \<lparr>success = False, sent_statusCode = c, statusId = None, sent_technicalStatus = None,
         error = Some (case response_errors e of
                         Some (first # rest) \<Rightarrow>
                           (if truthy (detail first) then the (detail first) else message e)
                       | _ \<Rightarrow> message e)\<rparr>"
    if "sendBusinessStatus api d c = Inl e"
    using that by (simp add: sendStatus_def failed_def errorMessage_cases)
  have 2: "sendStatus api d c =
          \<lparr>success = True, sent_statusCode = c, statusId = res_id r,
           sent_technicalStatus = ts, error = None\<rparr>"
    if "sendBusinessStatus api d c = Inr (Some r) \<and> res_technicalStatus r = Some ts"
    using that by (simp add: sendStatus_def)
  have 3: "sent_statusCode (sendStatus api d c) = c"
    by (simp add: sendStatus_def failed_def split: sum.splits option.splits)
  have 4: "error (sendStatus api d c) \<noteq> None" if "\<not> success (sendStatus api d c)"
    using that
    by (cases "sendBusinessStatus api d c")
      (auto simp: sendStatus_def failed_def split: option.splits)
  from 1 2 3 4 show ?thesis by blast
qed

theorem sendStatus_never_throws_witness:
  "sendStatus demo_api ''in-1'' ''rejected'' =
     \<lparr>success = False, sent_statusCode = ''rejected'', statusId = None,
      sent_technicalStatus = None, error = Some ''Document already has a final status''\<rparr>
   \<and> sendStatus demo_api ''in-1'' ''accepted'' =
     \<lparr>success = True, sent_statusCode = ''accepted'', statusId = Some ''bs-9'',
      sent_technicalStatus = Some ''queued'', error = None\<rparr>"
proof -
  have f: "sendBusinessStatus demo_api ''in-1'' ''rejected'' = Inl demo_forbidden"
    by (simp add: demo_api_def)
  have s: "sendBusinessStatus demo_api ''in-1'' ''accepted''
             = Inr (Some \<lparr>res_id = Some ''bs-9'', res_technicalStatus = Some (Some ''queued'')\<rparr>)
           \<and> res_technicalStatus \<lparr>res_id = Some ''bs-9'', res_technicalStatus = Some (Some ''queued'')\<rparr>
             = Some (Some ''queued'')"
    by (simp add: demo_api_def)
  from sendStatus_never_throws
         [of demo_api "''in-1''" "''rejected''" demo_forbidden, THEN conjunct1, rule_format, OF f]
  have a: "sendStatus demo_api ''in-1'' ''rejected'' =
     \<lparr>success = False, sent_statusCode = ''rejected'', statusId = None,
      sent_technicalStatus = None, error = Some ''Document already has a final status''\<rparr>"
    by (simp add: demo_forbidden_def truthy_def)
  from sendStatus_never_throws
         [of demo_api "''in-1''" "''accepted''" _
             "\<lparr>res_id = Some ''bs-9'', res_technicalStatus = Some (Some ''queued'')\<rparr>"
             "Some ''queued''",
          THEN conjunct2, THEN conjunct1, rule_format, OF s]
  have b: "sendStatus demo_api ''in-1'' ''accepted'' =
     \<lparr>success = True, sent_statusCode = ''accepted'', statusId = Some ''bs-9'',
      sent_technicalStatus = Some ''queued'', error = None\<rparr>"
    by simp
  from a b show ?thesis by simp
qed

section \<open>Properties of the run\<close>

lemma analyzeDocument_Inr:
  assumes "analyzeDocument api d = Inr a"
  shows "\<exists>sts. fetchInboundBusinessStatuses api d = Inr sts
           \<and> needsFinalStatus a = (\<not> hasAnyStatus sts finalStatuses)"
  using assms by (auto simp: analyzeDocument_def Let_def split: sum.splits)

lemma analyzeAllDocuments_items:
  assumes "analyzeAllDocuments api ms = Inr items" "a \<in> set items"
  shows "\<exists>sts. fetchInboundBusinessStatuses api (documentId a) = Inr sts
           \<and> needsFinalStatus a = (\<not> hasAnyStatus sts finalStatuses)"
  using assms
proof (induction ms arbitrary: items)
  case Nil
  then show ?case by simp
next
  case (Cons m ms)
  from Cons.prems(1) obtain an where
    an: "analyzeDocument api (doc_id (inbound m)) = Inr an"
    by (cases "analyzeDocument api (doc_id (inbound m))") auto
  from Cons.prems(1) an obtain ob where ob: "outbound m = Some ob"
    by (cases "outbound m") auto
  from Cons.prems(1) an ob obtain rest where
    rest: "analyzeAllDocuments api ms = Inr rest"
    by (cases "analyzeAllDocuments api ms") auto
  from Cons.prems(1) an ob rest have
    items: "items = document_analysis.extend an
                           \<lparr>documentId = doc_id (inbound m),
                            a_transmissionId = m_transmissionId m,
                            a_match = m,
                            outboundBusinessState =
                              (if truthy (businessStatus ob) then businessStatus ob else None)\<rparr>
                         # rest"
    by simp
  show ?case
  proof (cases "a \<in> set rest")
    case True
    with Cons.IH [OF rest] show ?thesis by blast
  next
    case False
    with Cons.prems(2) items have a: "a = document_analysis.extend an
                           \<lparr>documentId = doc_id (inbound m),
                            a_transmissionId = m_transmissionId m,
                            a_match = m,
                            outboundBusinessState =
                              (if truthy (businessStatus ob) then businessStatus ob else None)\<rparr>"
      by simp
    have "documentId a = doc_id (inbound m)" "needsFinalStatus a = needsFinalStatus an"
      unfolding a by (simp_all add: document_analysis.defs analysis_item.defs)
    with analyzeDocument_Inr [OF an] show ?thesis by simp
  qed
qed

lemma submissions_storeResult: "submissions (storeResult d ph r st) = submissions st"
  by (simp add: storeResult_def Let_def)

lemma sendStatuses_submissions:
  "fst ` set (submissions (snd (sendStatuses api docs ph g n st)))
     = fst ` set (submissions st) \<union> documentId ` set docs"
proof (induction docs arbitrary: n st)
  case Nil
  show ?case by simp
next
  case (Cons doc docs)
  show ?case
    by (simp add: Let_def Cons.IH submissions_storeResult)
qed

lemma sendForPartition_submissions:
  "fst ` set (submissions (sendForPartition api rnd items part st))
     \<subseteq> fst ` set (submissions st) \<union> documentId ` {a \<in> set items. needsFinalStatus a}"
  by (auto simp: sendForPartition_def sendFinalStatuses_def sendStatuses_submissions Let_def)

lemma latest_final_hasAnyStatus:
  assumes "latest_code (getLatestStatus sts) = ''accepted''
         \<or> latest_code (getLatestStatus sts) = ''rejected''"
  shows "hasAnyStatus sts finalStatuses"
proof (cases "sts = []")
  case True
  with assms show ?thesis by (simp add: getLatestStatus_def sentinel_def)
next
  case False
  from getLatestStatus_member [OF False] obtain r where
    r: "r \<in> set sts"
    and l: "getLatestStatus sts =
          \<lparr>latest_code = orElse (code r) ''-'',
           latest_technicalStatus = orElse (technicalStatus r) ''-''\<rparr>"
    by blast
  from assms l have "code r = Some ''accepted'' \<or> code r = Some ''rejected''"
    by (cases "code r") (auto simp: orElse_def split: if_splits)
  with r show ?thesis
    by (auto simp: hasAnyStatus_def finalStatuses_def ACCEPTED_def REJECTED_def list_ex_iff)
qed

lemma generateReport_submissions:
  "fst ` set (submissions (snd (generateReport h api rnd)))
     \<subseteq> {d. \<exists>sts. fetchInboundBusinessStatuses api d = Inr sts
                \<and> \<not> hasAnyStatus sts finalStatuses}"
proof -
  have items: "documentId ` {a \<in> set items. needsFinalStatus a}
      \<subseteq> {d. \<exists>sts. fetchInboundBusinessStatuses api d = Inr sts
                \<and> \<not> hasAnyStatus sts finalStatuses}"
    if "analyzeAllDocuments api ms = Inr items" for ms items
    using analyzeAllDocuments_items [OF that] by auto
  show ?thesis
  proof (cases "fetchAndMatchDocuments api")
    case (Inl e)
    then show ?thesis by (simp add: generateReport_def initial_state_def)
  next
    case (Inr matches)
    show ?thesis
    proof (cases "analyzeAllDocuments api matches")
      case (Inl e)
      with Inr show ?thesis by (simp add: generateReport_def initial_state_def)
    next
      case an: (Inr items)
      let ?S = "splitByDate h api matches cutoffDate"
      let ?st1 = "sendForPartition api rnd items (nov28AndLater ?S) initial_state"
      let ?st2 = "sendForPartition api rnd items (beforeNov28 ?S) ?st1"
      have 1: "fst ` set (submissions ?st1) \<subseteq> documentId ` {a \<in> set items. needsFinalStatus a}"
        using sendForPartition_submissions [of api rnd items "nov28AndLater ?S" initial_state]
        by (simp add: initial_state_def)
      have 2: "fst ` set (submissions ?st2) \<subseteq> documentId ` {a \<in> set items. needsFinalStatus a}"
        using sendForPartition_submissions [of api rnd items "beforeNov28 ?S" ?st1] 1
        by blast
      have "snd (generateReport h api rnd) = ?st2 \<or> snd (generateReport h api rnd) = initial_state"
        using Inr an by (simp add: generateReport_def Let_def)
      then have "fst ` set (submissions (snd (generateReport h api rnd)))
          \<subseteq> documentId ` {a \<in> set items. needsFinalStatus a}"
      proof
        assume "snd (generateReport h api rnd) = ?st2"
        with 2 show ?thesis by simp
      next
        assume "snd (generateReport h api rnd) = initial_state"
        then show ?thesis by (simp add: initial_state_def)
      qed
      then show ?thesis using items [OF an] by (rule subset_trans)
    qed
  qed
qed

text \<open>
  Claim C1: for every matched inbound document, if the latest-by-createdAt record of its
  fetched business-status list has code \<open>accepted\<close> or \<open>rejected\<close>, then the run attempts
  no status submission for that document.
\<close>

theorem generateReport_no_submission_when_final:
  assumes "fetchAndMatchDocuments api = Inr matches"
    and "m \<in> set matches"
    and "fetchInboundBusinessStatuses api (doc_id (inbound m)) = Inr sts"
    and "latest_code (getLatestStatus sts) = ''accepted''
         \<or> latest_code (getLatestStatus sts) = ''rejected''"
  shows "doc_id (inbound m) \<notin> fst ` set (submissions (snd (generateReport h api rnd)))"
proof
  assume "doc_id (inbound m) \<in> fst ` set (submissions (snd (generateReport h api rnd)))"
  with generateReport_submissions [of h api rnd] obtain sts' where
    "fetchInboundBusinessStatuses api (doc_id (inbound m)) = Inr sts'"
    "\<not> hasAnyStatus sts' finalStatuses"
    by blast
  with assms(3) have "\<not> hasAnyStatus sts finalStatuses" by simp
  with latest_final_hasAnyStatus [OF assms(4)] show False by simp
qed


lemma demo_matches:
  "fetchAndMatchDocuments demo_api
     = Inr [\<lparr>inbound = in1, outbound = Some out1, m_transmissionId = Some ''T1''\<rparr>,
            \<lparr>inbound = in2, outbound = Some out2b, m_transmissionId = Some ''T2''\<rparr>]"
  by (simp add: fetchAndMatchDocuments_def buildOutboundMap_def findMatches_def newMap_def
      demo_api_def in1_def in2_def in3_def out1_def out2a_def out2b_def out3_def truthy_def)

lemma demo_split:
  "splitByDate utc_host demo_api
     [\<lparr>inbound = in1, outbound = Some out1, m_transmissionId = Some ''T1''\<rparr>,
      \<lparr>inbound = in2, outbound = Some out2b, m_transmissionId = Some ''T2''\<rparr>] cutoffDate
   = \<lparr>nov28AndLater = [\<lparr>inbound = in2, outbound = Some out2b, m_transmissionId = Some ''T2''\<rparr>],
      beforeNov28 = [\<lparr>inbound = in1, outbound = Some out1, m_transmissionId = Some ''T1''\<rparr>]\<rparr>"
  by (simp add: splitByDate_filter demo_invoiceDate_in1 demo_invoiceDate_in2
      demo_dateOnly_cutoff demo_dateOnly_in1 demo_dateOnly_in2 date_ge_def)

lemma demo_latest_in2:
  "getLatestStatus [st_received, st_accepted]
     = \<lparr>latest_code = ''accepted'', latest_technicalStatus = ''sent''\<rparr>"
  by (simp add: getLatestStatus_def st_received_def st_accepted_def js_sort_Cons js_sort_Nil
      orElse_def dateDifference_def)

lemma demo_analysis:
  "\<exists>a1 a2. analyzeAllDocuments demo_api
     [\<lparr>inbound = in1, outbound = Some out1, m_transmissionId = Some ''T1''\<rparr>,
      \<lparr>inbound = in2, outbound = Some out2b, m_transmissionId = Some ''T2''\<rparr>] = Inr [a1, a2]
    \<and> documentId a1 = ''in-1'' \<and> needsFinalStatus a1
    \<and> documentId a2 = ''in-2'' \<and> \<not> needsFinalStatus a2"
  by (simp add: analyzeDocument_def demo_api_def in1_def in2_def hasAnyStatus_def
      finalStatuses_def ACCEPTED_def REJECTED_def st_received_def st_accepted_def
      getExistingStatusCodes_def document_analysis.defs analysis_item.defs)

lemma demo_run:
  "submissions (snd (generateReport utc_host demo_api (\<lambda>i. 0))) = [(''in-1'', ''accepted'')]"
proof -
  from demo_analysis obtain a1 a2 where
    an: "analyzeAllDocuments demo_api
     [\<lparr>inbound = in1, outbound = Some out1, m_transmissionId = Some ''T1''\<rparr>,
      \<lparr>inbound = in2, outbound = Some out2b, m_transmissionId = Some ''T2''\<rparr>] = Inr [a1, a2]"
    and a: "documentId a1 = ''in-1''" "needsFinalStatus a1"
      "documentId a2 = ''in-2''" "\<not> needsFinalStatus a2"
    by (elim exE conjE)
  have ids: "doc_id in1 = ''in-1''" "doc_id in2 = ''in-2''"
    by (simp_all add: in1_def in2_def)
  have nov: "sendForPartition demo_api (\<lambda>i. 0) [a1, a2]
      [\<lparr>inbound = in2, outbound = Some out2b, m_transmissionId = Some ''T2''\<rparr>] initial_state
      = initial_state"
    by (simp add: sendForPartition_def a ids)
  have bef: "submissions (sendForPartition demo_api (\<lambda>i. 0) [a1, a2]
      [\<lparr>inbound = in1, outbound = Some out1, m_transmissionId = Some ''T1''\<rparr>] initial_state)
      = [(''in-1'', ''accepted'')]"
    by (simp add: sendForPartition_def a ids sendFinalStatuses_def Let_def
        submissions_storeResult initial_state_def getRandomFinalStatus_def randomChoice_def
        ACCEPTED_def)
  show ?thesis
    by (simp add: generateReport_def demo_matches an demo_split Let_def nov bef
        del: analyzeAllDocuments.simps)
qed

theorem generateReport_no_submission_when_final_witness:
  "fetchInboundBusinessStatuses demo_api (doc_id in2) = Inr [st_received, st_accepted]
   \<and> latest_code (getLatestStatus [st_received, st_accepted]) = ''accepted''
   \<and> ''in-2'' \<notin> fst ` set (submissions (snd (generateReport utc_host demo_api (\<lambda>i. 0))))
   \<and> submissions (snd (generateReport utc_host demo_api (\<lambda>i. 0))) = [(''in-1'', ''accepted'')]"
proof -
  let ?m2 = "\<lparr>inbound = in2, outbound = Some out2b, m_transmissionId = Some ''T2''\<rparr>"
  have 2: "?m2 \<in> set [\<lparr>inbound = in1, outbound = Some out1, m_transmissionId = Some ''T1''\<rparr>, ?m2]"
    by simp
  have 3: "fetchInboundBusinessStatuses demo_api (doc_id (inbound ?m2))
             = Inr [st_received, st_accepted]"
    by (simp add: demo_api_def in2_def)
  have 4: "latest_code (getLatestStatus [st_received, st_accepted]) = ''accepted''
         \<or> latest_code (getLatestStatus [st_received, st_accepted]) = ''rejected''"
    by (simp add: demo_latest_in2)
  from generateReport_no_submission_when_final [OF demo_matches 2 3 4, of utc_host "\<lambda>i. 0"]
  have "''in-2'' \<notin> fst ` set (submissions (snd (generateReport utc_host demo_api (\<lambda>i. 0))))"
    by (simp add: in2_def)
  with 3 demo_run show ?thesis by (simp add: demo_latest_in2)
qed

section \<open>Properties of the sort by invoice number\<close>

lemma set_js_insert: "set (js_insert cmp x ys) = insert x (set ys)"
  by (induction ys) auto

lemma sorted_js_insert:
  assumes sorted: "sorted_wrt (\<lambda>a b. cmp a b \<le> 0) ys"
    and total: "\<And>y. y \<in> set ys \<Longrightarrow> cmp x y \<le> 0 \<or> cmp y x \<le> 0"
    and trans: "\<And>y z. y \<in> set ys \<Longrightarrow> z \<in> set ys \<Longrightarrow> cmp x y \<le> 0 \<Longrightarrow> cmp y z \<le> 0
                  \<Longrightarrow> cmp x z \<le> 0"
  shows "sorted_wrt (\<lambda>a b. cmp a b \<le> 0) (js_insert cmp x ys)"
  using assms
proof (induction ys)
  case Nil
  then show ?case by simp
next
  case (Cons y ys)
  from Cons.prems(1) have y_le: "\<And>z. z \<in> set ys \<Longrightarrow> cmp y z \<le> 0"
    and sorted_ys: "sorted_wrt (\<lambda>a b. cmp a b \<le> 0) ys"
    by simp_all
  show ?case
  proof (cases "cmp x y \<le> 0")
    case True
    have "cmp x z \<le> 0" if "z \<in> set ys" for z
    proof (rule Cons.prems(3) [of y z])
      show "y \<in> set (y # ys)" by simp
      show "z \<in> set (y # ys)" using that by simp
      show "cmp x y \<le> 0" by (rule True)
      show "cmp y z \<le> 0" using that by (rule y_le)
    qed
    with True Cons.prems(1) show ?thesis by simp
  next
    case False
    have "cmp x y \<le> 0 \<or> cmp y x \<le> 0" by (rule Cons.prems(2)) simp
    with False have yx: "cmp y x \<le> 0" by simp
    have ins: "sorted_wrt (\<lambda>a b. cmp a b \<le> 0) (js_insert cmp x ys)"
    proof (rule Cons.IH [OF sorted_ys])
      fix a
      assume "a \<in> set ys"
      then have "a \<in> set (y # ys)" by simp
      then show "cmp x a \<le> 0 \<or> cmp a x \<le> 0" by (rule Cons.prems(2))
    next
      fix a b
      assume "a \<in> set ys" "b \<in> set ys" and le: "cmp x a \<le> 0" "cmp a b \<le> 0"
      then have "a \<in> set (y # ys)" "b \<in> set (y # ys)" by simp_all
      then show "cmp x b \<le> 0" using le by (rule Cons.prems(3))
    qed
    have "cmp y w \<le> 0" if "w \<in> set (js_insert cmp x ys)" for w
    proof (cases "w = x")
      case True
      with yx show ?thesis by simp
    next
      case False
      with that have "w \<in> set ys" by (simp add: set_js_insert)
      then show ?thesis by (rule y_le)
    qed
    with False ins show ?thesis by simp
  qed
qed

lemma sorted_js_sort:
  assumes total: "\<And>x y. x \<in> set xs \<Longrightarrow> y \<in> set xs \<Longrightarrow> cmp x y \<le> 0 \<or> cmp y x \<le> 0"
    and trans: "\<And>x y z. x \<in> set xs \<Longrightarrow> y \<in> set xs \<Longrightarrow> z \<in> set xs
                  \<Longrightarrow> cmp x y \<le> 0 \<Longrightarrow> cmp y z \<le> 0 \<Longrightarrow> cmp x z \<le> 0"
  shows "sorted_wrt (\<lambda>a b. cmp a b \<le> 0) (js_sort cmp xs)"
  using assms
proof (induction xs)
  case Nil
  show ?case by (simp add: js_sort_Nil)
next
  case (Cons x xs)
  have tail: "a \<in> set (x # xs)" if "a \<in> set xs" for a using that by simp
  have head: "x \<in> set (x # xs)" by simp
  have "sorted_wrt (\<lambda>a b. cmp a b \<le> 0) (js_sort cmp xs)"
  proof (rule Cons.IH)
    fix a b
    assume "a \<in> set xs" "b \<in> set xs"
    then show "cmp a b \<le> 0 \<or> cmp b a \<le> 0" by (intro Cons.prems(1) tail)
  next
    fix a b c
    assume "a \<in> set xs" "b \<in> set xs" "c \<in> set xs" and le: "cmp a b \<le> 0" "cmp b c \<le> 0"
    then have "a \<in> set (x # xs)" "b \<in> set (x # xs)" "c \<in> set (x # xs)" by simp_all
    then show "cmp a c \<le> 0" using le by (rule Cons.prems(2))
  qed
  moreover have "cmp x y \<le> 0 \<or> cmp y x \<le> 0" if "y \<in> set (js_sort cmp xs)" for y
  proof -
    from that have "y \<in> set xs" by (simp only: set_js_sort)
    then have "y \<in> set (x # xs)" by simp
    with head show ?thesis by (rule Cons.prems(1))
  qed
  moreover have "cmp x z \<le> 0"
    if "y \<in> set (js_sort cmp xs)" "z \<in> set (js_sort cmp xs)" "cmp x y \<le> 0" "cmp y z \<le> 0"
    for y z
  proof -
    from that(1,2) have "y \<in> set xs" "z \<in> set xs" by (simp_all only: set_js_sort)
    then have "y \<in> set (x # xs)" "z \<in> set (x # xs)" by simp_all
    with head show ?thesis using that(3,4) by (rule Cons.prems(2))
  qed
  ultimately show ?case
    unfolding js_sort_Cons by (rule sorted_js_insert)
qed

lemma compareInvoiceNumbers_cases:
  "compareInvoiceNumbers h a b =
     (if parseInt a \<noteq> None \<and> parseInt b \<noteq> None
      then the (parseInt a) - the (parseInt b)
      else localeCompare h a b)"
  by (auto simp: compareInvoiceNumbers_def Let_def split: option.splits)

lemma mset_sortMatchesByInvoiceNumber:
  "mset (sortMatchesByInvoiceNumber h api ms) = mset ms"
proof -
  let ?ps = "map (\<lambda>m. (m, invoiceNumber (fetchXmlDetailsSafe h api (doc_id (inbound m))))) ms"
  let ?cmp = "\<lambda>a b. compareInvoiceNumbers h (snd a) (snd b)"
  have "mset (map fst (js_sort ?cmp ?ps)) = image_mset fst (mset (js_sort ?cmp ?ps))"
    by simp
  also have "\<dots> = image_mset fst (mset ?ps)" by (simp only: mset_js_sort)
  also have "\<dots> = mset ms" by (simp add: image_mset.compositionality comp_def)
  finally show ?thesis by (simp add: sortMatchesByInvoiceNumber_def Let_def)
qed

lemma sorted_sortMatchesByInvoiceNumber:
  assumes total: "\<forall>a \<in> set ms. \<forall>b \<in> set ms.
        compareInvoiceNumbers h (num a) (num b) \<le> 0 \<or> compareInvoiceNumbers h (num b) (num a) \<le> 0"
    and trans: "\<forall>a \<in> set ms. \<forall>b \<in> set ms. \<forall>c \<in> set ms.
        compareInvoiceNumbers h (num a) (num b) \<le> 0 \<and> compareInvoiceNumbers h (num b) (num c) \<le> 0
        \<longrightarrow> compareInvoiceNumbers h (num a) (num c) \<le> 0"
    and num: "num = (\<lambda>m. invoiceNumber (fetchXmlDetailsSafe h api (doc_id (inbound m))))"
  shows "sorted_wrt (\<lambda>m m'. compareInvoiceNumbers h (num m) (num m') \<le> 0)
           (sortMatchesByInvoiceNumber h api ms)"
proof -
  let ?ps = "map (\<lambda>m. (m, num m)) ms"
  let ?cmp = "\<lambda>a b. compareInvoiceNumbers h (num (fst a)) (num (fst b))"
  let ?cmp' = "\<lambda>a b. compareInvoiceNumbers h (snd a) (snd b)"
  have fst_ps: "fst p \<in> set ms" and snd_ps: "snd p = num (fst p)" if "p \<in> set ?ps" for p
    using that by auto
  have t: "?cmp x y \<le> 0 \<or> ?cmp y x \<le> 0" if "x \<in> set ?ps" "y \<in> set ?ps" for x y
    using total fst_ps [OF that(1)] fst_ps [OF that(2)] by blast
  have tr: "?cmp x z \<le> 0"
    if "x \<in> set ?ps" "y \<in> set ?ps" "z \<in> set ?ps" "?cmp x y \<le> 0" "?cmp y z \<le> 0"
    for x y z
    using trans fst_ps [OF that(1)] fst_ps [OF that(2)] fst_ps [OF that(3)] that(4,5) by blast
  have same: "js_insert ?cmp' x ys = js_insert ?cmp x ys"
    if "snd x = num (fst x)" "\<forall>y \<in> set ys. snd y = num (fst y)" for x ys
    using that by (induction ys) simp_all
  have eq: "js_sort ?cmp' qs = js_sort ?cmp qs" if "\<forall>q \<in> set qs. snd q = num (fst q)" for qs
    using that
  proof (induction qs)
    case Nil
    show ?case by (simp add: js_sort_Nil)
  next
    case (Cons q qs)
    then have "js_sort ?cmp' qs = js_sort ?cmp qs" by simp
    moreover have "\<forall>y \<in> set (js_sort ?cmp qs). snd y = num (fst y)"
      using Cons.prems by (simp add: set_js_sort)
    moreover have "snd q = num (fst q)" using Cons.prems by simp
    ultimately show ?case by (simp add: js_sort_Cons same)
  qed
  have "sorted_wrt (\<lambda>a b. ?cmp a b \<le> 0) (js_sort ?cmp ?ps)"
  proof (rule sorted_js_sort)
    fix x y
    assume "x \<in> set ?ps" "y \<in> set ?ps"
    then show "?cmp x y \<le> 0 \<or> ?cmp y x \<le> 0" by (rule t)
  next
    fix x y z
    assume "x \<in> set ?ps" "y \<in> set ?ps" "z \<in> set ?ps" "?cmp x y \<le> 0" "?cmp y z \<le> 0"
    then show "?cmp x z \<le> 0" by (rule tr)
  qed
  moreover have "js_sort ?cmp' ?ps = js_sort ?cmp ?ps"
    by (rule eq) simp
  ultimately have "sorted_wrt (\<lambda>a b. ?cmp a b \<le> 0) (js_sort ?cmp' ?ps)" by simp
  then have "sorted_wrt (\<lambda>m m'. compareInvoiceNumbers h (num m) (num m') \<le> 0)
      (map fst (js_sort ?cmp' ?ps))"
    by (simp add: sorted_wrt_map)
  then show ?thesis
    by (simp add: sortMatchesByInvoiceNumber_def Let_def num)
qed

lemma sorted_by_number:
  assumes parse: "\<And>m. m \<in> set ms \<Longrightarrow> parseInt (invoiceNumberOf h api m) \<noteq> None"
  shows "sorted_wrt (\<lambda>m m'. the (parseInt (invoiceNumberOf h api m))
                          \<le> the (parseInt (invoiceNumberOf h api m')))
           (sortMatchesByInvoiceNumber h api ms)"
proof -
  let ?num = "\<lambda>m. invoiceNumber (fetchXmlDetailsSafe h api (doc_id (inbound m)))"
  have num: "invoiceNumberOf h api = ?num" by (rule ext) (simp add: invoiceNumberOf_def)
  have cmp: "compareInvoiceNumbers h (?num a) (?num b)
               = the (parseInt (?num a)) - the (parseInt (?num b))"
    if "a \<in> set ms" "b \<in> set ms" for a b
    using parse [OF that(1)] parse [OF that(2)] by (simp add: compareInvoiceNumbers_cases num)
  have sorted: "sorted_wrt (\<lambda>m m'. compareInvoiceNumbers h (?num m) (?num m') \<le> 0)
      (sortMatchesByInvoiceNumber h api ms)"
  proof (rule sorted_sortMatchesByInvoiceNumber [where num = ?num])
    show "\<forall>a \<in> set ms. \<forall>b \<in> set ms.
        compareInvoiceNumbers h (?num a) (?num b) \<le> 0 \<or> compareInvoiceNumbers h (?num b) (?num a) \<le> 0"
    proof (intro ballI)
      fix a b
      assume "a \<in> set ms" "b \<in> set ms"
      then show "compareInvoiceNumbers h (?num a) (?num b) \<le> 0
          \<or> compareInvoiceNumbers h (?num b) (?num a) \<le> 0"
        by (simp only: cmp) linarith
    qed
    show "\<forall>a \<in> set ms. \<forall>b \<in> set ms. \<forall>c \<in> set ms.
        compareInvoiceNumbers h (?num a) (?num b) \<le> 0 \<and> compareInvoiceNumbers h (?num b) (?num c) \<le> 0
        \<longrightarrow> compareInvoiceNumbers h (?num a) (?num c) \<le> 0"
    proof (intro ballI)
      fix a b c
      assume "a \<in> set ms" "b \<in> set ms" "c \<in> set ms"
      then show "compareInvoiceNumbers h (?num a) (?num b) \<le> 0
          \<and> compareInvoiceNumbers h (?num b) (?num c) \<le> 0
          \<longrightarrow> compareInvoiceNumbers h (?num a) (?num c) \<le> 0"
        by (simp only: cmp) linarith
    qed
    show "?num = ?num" by (rule refl)
  qed
  have in_ms: "m \<in> set ms" if "m \<in> set (sortMatchesByInvoiceNumber h api ms)" for m
    using that mset_sortMatchesByInvoiceNumber [of h api ms] by (metis set_mset_mset)
  show ?thesis
  proof (rule sorted_wrt_mono_rel [OF _ sorted])
    fix a b
    assume "a \<in> set (sortMatchesByInvoiceNumber h api ms)"
      "b \<in> set (sortMatchesByInvoiceNumber h api ms)"
      and le: "compareInvoiceNumbers h (?num a) (?num b) \<le> 0"
    then have "a \<in> set ms" "b \<in> set ms" by (simp_all add: in_ms)
    from cmp [OF this] le show "the (parseInt (invoiceNumberOf h api a))
        \<le> the (parseInt (invoiceNumberOf h api b))"
      by (simp add: num)
  qed
qed

text \<open>
  Claim C8: \<open>sortMatchesByInvoiceNumber\<close> orders the matches by their extracted invoice
  numbers with a comparator that is the numeric difference of the \<open>parseInt\<close> values
  when both invoice numbers parse, and \<open>localeCompare\<close> whenever at least one does not.
  The result is a rearrangement of the matches; it is in the comparator's order whenever
  the comparator orders the invoice numbers at hand consistently, and so in ascending
  numeric order when all of them parse.
\<close>

theorem sortMatchesByInvoiceNumber_order:
  "compareInvoiceNumbers h a b =
     (if parseInt a \<noteq> None \<and> parseInt b \<noteq> None
      then the (parseInt a) - the (parseInt b)
      else localeCompare h a b)
   \<and> mset (sortMatchesByInvoiceNumber h api ms) = mset ms
   \<and> ((\<forall>x \<in> set ms. \<forall>y \<in> set ms. \<forall>z \<in> set ms.
          (inInvoiceOrder h api x y \<or> inInvoiceOrder h api y x)
          \<and> (inInvoiceOrder h api x y \<and> inInvoiceOrder h api y z \<longrightarrow> inInvoiceOrder h api x z))
        \<longrightarrow> sorted_wrt (inInvoiceOrder h api) (sortMatchesByInvoiceNumber h api ms))
   \<and> ((\<forall>m \<in> set ms. parseInt (invoiceNumberOf h api m) \<noteq> None)
        \<longrightarrow> sorted_wrt (\<lambda>m m'. the (parseInt (invoiceNumberOf h api m))
                                 \<le> the (parseInt (invoiceNumberOf h api m')))
              (sortMatchesByInvoiceNumber h api ms))"
proof -
  let ?num = "\<lambda>m. invoiceNumber (fetchXmlDetailsSafe h api (doc_id (inbound m)))"
  have ord: "inInvoiceOrder h api = (\<lambda>m m'. compareInvoiceNumbers h (?num m) (?num m') \<le> 0)"
    by (intro ext) (simp add: inInvoiceOrder_def invoiceNumberOf_def)
  have 3: "sorted_wrt (inInvoiceOrder h api) (sortMatchesByInvoiceNumber h api ms)"
    if c: "\<forall>x \<in> set ms. \<forall>y \<in> set ms. \<forall>z \<in> set ms.
          (inInvoiceOrder h api x y \<or> inInvoiceOrder h api y x)
          \<and> (inInvoiceOrder h api x y \<and> inInvoiceOrder h api y z \<longrightarrow> inInvoiceOrder h api x z)"
    unfolding ord
  proof (rule sorted_sortMatchesByInvoiceNumber [where num = ?num])
    show "\<forall>a \<in> set ms. \<forall>b \<in> set ms.
        compareInvoiceNumbers h (?num a) (?num b) \<le> 0 \<or> compareInvoiceNumbers h (?num b) (?num a) \<le> 0"
      using c unfolding ord by blast
    show "\<forall>a \<in> set ms. \<forall>b \<in> set ms. \<forall>c \<in> set ms.
        compareInvoiceNumbers h (?num a) (?num b) \<le> 0 \<and> compareInvoiceNumbers h (?num b) (?num c) \<le> 0
        \<longrightarrow> compareInvoiceNumbers h (?num a) (?num c) \<le> 0"
      using c unfolding ord by blast
    show "?num = ?num" by (rule refl)
  qed
  have 4: "sorted_wrt (\<lambda>m m'. the (parseInt (invoiceNumberOf h api m))
                                 \<le> the (parseInt (invoiceNumberOf h api m')))
              (sortMatchesByInvoiceNumber h api ms)"
    if "\<forall>m \<in> set ms. parseInt (invoiceNumberOf h api m) \<noteq> None"
    using that by (intro sorted_by_number) simp
  from compareInvoiceNumbers_cases [of h a b] mset_sortMatchesByInvoiceNumber [of h api ms] 3 4
  show ?thesis by (intro conjI impI)
qed

lemma demo_parseInt_1001: "parseInt ''1001'' = Some 1001"
  by (simp add: parseInt_def isWhiteSpace_def isDigit_def digitsInt_def digitValue_def
      toNumber_def roundMagnitude_def)

lemma demo_parseInt_10: "parseInt ''10'' = Some 10"
  by (simp add: parseInt_def isWhiteSpace_def isDigit_def digitsInt_def digitValue_def
      toNumber_def roundMagnitude_def)

lemma demo_parseInt_9: "parseInt ''9'' = Some 9"
  by (simp add: parseInt_def isWhiteSpace_def isDigit_def digitsInt_def digitValue_def
      toNumber_def roundMagnitude_def)

lemma demo_parseInt_Error: "parseInt ''Error'' = None"
  by (simp add: parseInt_def isWhiteSpace_def isDigit_def)

lemma demo_number_in1:
  "invoiceNumberOf utc_host demo_api
     \<lparr>inbound = in1, outbound = Some out1, m_transmissionId = Some ''T1''\<rparr> = ''1001''"
proof -
  have "extractField demo_xml1 ''ID'' = Some ''1001''"
    by (simp add: extractField_def matchAt_def demo_xml1_def)
  then show ?thesis
    by (simp add: invoiceNumberOf_def fetchXmlDetailsSafe_def parseInvoiceDetails_def
        demo_api_def in1_def orElse_def Let_def)
qed

lemma demo_number_in2:
  "invoiceNumberOf utc_host demo_api
     \<lparr>inbound = in2, outbound = Some out2b, m_transmissionId = Some ''T2''\<rparr> = ''Error''"
  by (simp add: invoiceNumberOf_def fetchXmlDetailsSafe_def demo_api_def in2_def)

lemma demo_compare:
  "compareInvoiceNumbers utc_host ''1001'' ''Error'' = - 1"
  "compareInvoiceNumbers utc_host ''Error'' ''1001'' = 1"
  "compareInvoiceNumbers utc_host ''Error'' ''Error'' = 0"
  "compareInvoiceNumbers utc_host ''1001'' ''1001'' = 0"
  by (simp_all add: compareInvoiceNumbers_def demo_parseInt_1001 demo_parseInt_Error
      utc_host_def)

theorem sortMatchesByInvoiceNumber_order_witness:
  "compareInvoiceNumbers utc_host ''10'' ''9'' = 1
   \<and> localeCompare utc_host ''10'' ''9'' = - 1
   \<and> compareInvoiceNumbers utc_host ''10'' ''Error'' = - 1
   \<and> sortMatchesByInvoiceNumber utc_host demo_api
        [\<lparr>inbound = in2, outbound = Some out2b, m_transmissionId = Some ''T2''\<rparr>,
         \<lparr>inbound = in1, outbound = Some out1, m_transmissionId = Some ''T1''\<rparr>]
       = [\<lparr>inbound = in1, outbound = Some out1, m_transmissionId = Some ''T1''\<rparr>,
          \<lparr>inbound = in2, outbound = Some out2b, m_transmissionId = Some ''T2''\<rparr>]
   \<and> sorted_wrt (inInvoiceOrder utc_host demo_api)
        (sortMatchesByInvoiceNumber utc_host demo_api
           [\<lparr>inbound = in2, outbound = Some out2b, m_transmissionId = Some ''T2''\<rparr>,
            \<lparr>inbound = in1, outbound = Some out1, m_transmissionId = Some ''T1''\<rparr>])"
proof -
  let ?m1 = "\<lparr>inbound = in1, outbound = Some out1, m_transmissionId = Some ''T1''\<rparr>"
  let ?m2 = "\<lparr>inbound = in2, outbound = Some out2b, m_transmissionId = Some ''T2''\<rparr>"
  have a: "compareInvoiceNumbers utc_host ''10'' ''9'' = 1"
    using sortMatchesByInvoiceNumber_order [of utc_host "''10''" "''9''" demo_api "[]", THEN conjunct1]
    by (simp add: demo_parseInt_10 demo_parseInt_9)
  have b: "localeCompare utc_host ''10'' ''9'' = - 1"
    by (simp add: utc_host_def)
  have c: "compareInvoiceNumbers utc_host ''10'' ''Error'' = - 1"
    using sortMatchesByInvoiceNumber_order [of utc_host "''10''" "''Error''" demo_api "[]", THEN conjunct1]
    by (simp add: demo_parseInt_10 demo_parseInt_Error utc_host_def)
  have ord: "inInvoiceOrder utc_host demo_api ?m1 ?m1" "inInvoiceOrder utc_host demo_api ?m1 ?m2"
    "inInvoiceOrder utc_host demo_api ?m2 ?m2" "\<not> inInvoiceOrder utc_host demo_api ?m2 ?m1"
    by (simp_all add: inInvoiceOrder_def demo_number_in1 demo_number_in2 demo_compare)
  have consistent: "\<forall>x \<in> set [?m2, ?m1]. \<forall>y \<in> set [?m2, ?m1]. \<forall>z \<in> set [?m2, ?m1].
          (inInvoiceOrder utc_host demo_api x y \<or> inInvoiceOrder utc_host demo_api y x)
          \<and> (inInvoiceOrder utc_host demo_api x y \<and> inInvoiceOrder utc_host demo_api y z
               \<longrightarrow> inInvoiceOrder utc_host demo_api x z)"
    using ord by simp
  have d: "sorted_wrt (inInvoiceOrder utc_host demo_api)
        (sortMatchesByInvoiceNumber utc_host demo_api [?m2, ?m1])"
    using sortMatchesByInvoiceNumber_order [of utc_host "[]" "[]" demo_api "[?m2, ?m1]",
        THEN conjunct2, THEN conjunct2, THEN conjunct1, THEN mp, OF consistent] .
  have n: "invoiceNumber (fetchXmlDetailsSafe utc_host demo_api (doc_id in1)) = ''1001''"
    "invoiceNumber (fetchXmlDetailsSafe utc_host demo_api (doc_id in2)) = ''Error''"
    using demo_number_in1 demo_number_in2 by (simp_all add: invoiceNumberOf_def)
  have e: "sortMatchesByInvoiceNumber utc_host demo_api [?m2, ?m1] = [?m1, ?m2]"
    by (simp add: sortMatchesByInvoiceNumber_def n js_sort_Cons js_sort_Nil demo_compare)
  from a b c d e show ?thesis by simp
qed

end
